theory Spec2Isabelle
  imports Main "HOL-Library.AList" "HOL-Library.List_Lexorder" "HOL-Library.Char_ord"
    "HOL-Library.Multiset"
begin

section \<open>Python strings\<close>

text \<open>
  File names and paths are byte strings. Python compares \<open>str\<close> values by code point;
  on UTF-8 bytes that is the lexicographic order of the bytes, which is the order of
  \<^typ>\<open>string\<close> here.
\<close>

definition startswith :: "string \<Rightarrow> string \<Rightarrow> bool" where
  "startswith s p = (take (length p) s = p)"

definition endswith :: "string \<Rightarrow> string \<Rightarrow> bool" where
  "endswith s p = (length p \<le> length s \<and> drop (length s - length p) s = p)"

definition rstrip :: "char \<Rightarrow> string \<Rightarrow> string" where
  "rstrip c s = rev (dropWhile (\<lambda>x. x = c) (rev s))"

definition after_last :: "char \<Rightarrow> string \<Rightarrow> string" where
  \<comment> \<open>\<open>s[s.rfind(c) + 1:]\<close>: the whole string when \<open>c\<close> does not occur\<close>
  "after_last c s = rev (takeWhile (\<lambda>x. x \<noteq> c) (rev s))"

definition lower_char :: "char \<Rightarrow> char" where
  "lower_char c =
     (case map_of (zip ''ABCDEFGHIJKLMNOPQRSTUVWXYZ'' ''abcdefghijklmnopqrstuvwxyz'') c of
        Some l \<Rightarrow> l
      | None \<Rightarrow> c)"

definition lower :: "string \<Rightarrow> string" where
  \<comment> \<open>\<open>str.lower\<close> on ASCII\<close>
  "lower s = map lower_char s"

definition digit_char :: "nat \<Rightarrow> char" where
  "digit_char n = ''0123456789'' ! n"

fun str_nat :: "nat \<Rightarrow> string" where
  "str_nat n = (if n < 10 then [digit_char n] else str_nat (n div 10) @ [digit_char (n mod 10)])"

declare str_nat.simps [simp del]

definition str_int :: "int \<Rightarrow> string" where
  \<comment> \<open>\<open>str(i)\<close> for a Python integer\<close>
  "str_int i = (if i < 0 then CHR ''-'' # str_nat (nat (- i)) else str_nat (nat i))"

definition zfill :: "string \<Rightarrow> nat \<Rightarrow> string" where
  \<comment> \<open>\<open>s.zfill(width)\<close>: the zeros go after a leading sign\<close>
  "zfill s width =
     (if width \<le> length s then s
      else if s \<noteq> [] \<and> (hd s = CHR ''+'' \<or> hd s = CHR ''-'')
        then hd s # replicate (width - length s) CHR ''0'' @ tl s
      else replicate (width - length s) CHR ''0'' @ s)"

definition byte :: "char \<Rightarrow> nat" where
  "byte c = of_char c"

definition continuation :: "char \<Rightarrow> bool" where
  "continuation c = (0x80 \<le> byte c \<and> byte c \<le> 0xBF)"

fun utf8 :: "string \<Rightarrow> bool" where
  \<comment> \<open>the bytes are UTF-8, as the strict decoder of Python has it: sequences of one to
      four bytes, none overlong, no surrogate, nothing beyond U+10FFFF\<close>
  "utf8 [] = True"
| "utf8 (b # bs) =
     (if byte b < 0x80 then utf8 bs
      else if 0xC2 \<le> byte b \<and> byte b \<le> 0xDF
        then (case bs of
                c1 # r \<Rightarrow> continuation c1 \<and> utf8 r
              | _ \<Rightarrow> False)
      else if 0xE0 \<le> byte b \<and> byte b \<le> 0xEF
        then (case bs of
                c1 # c2 # r \<Rightarrow>
                  (if byte b = 0xE0 then 0xA0 \<le> byte c1 \<and> byte c1 \<le> 0xBF
                   else if byte b = 0xED then 0x80 \<le> byte c1 \<and> byte c1 \<le> 0x9F
                   else continuation c1)
                  \<and> continuation c2 \<and> utf8 r
              | _ \<Rightarrow> False)
      else if 0xF0 \<le> byte b \<and> byte b \<le> 0xF4
        then (case bs of
                c1 # c2 # c3 # r \<Rightarrow>
                  (if byte b = 0xF0 then 0x90 \<le> byte c1 \<and> byte c1 \<le> 0xBF
                   else if byte b = 0xF4 then 0x80 \<le> byte c1 \<and> byte c1 \<le> 0x8F
                   else continuation c1)
                  \<and> continuation c2 \<and> continuation c3 \<and> utf8 r
              | _ \<Rightarrow> False)
      else False)"

declare utf8.simps [simp del]

section \<open>\<open>os.path\<close> on POSIX\<close>

definition path_join :: "string \<Rightarrow> string \<Rightarrow> string" where
  \<comment> \<open>\<open>os.path.join(a, b)\<close>\<close>
  "path_join a b =
     (if startswith b ''/'' then b
      else if a = [] \<or> endswith a ''/'' then a @ b
      else a @ ''/'' @ b)"

definition basename :: "string \<Rightarrow> string" where
  "basename p = after_last CHR ''/'' p"

definition dirname :: "string \<Rightarrow> string" where
  \<comment> \<open>\<open>os.path.dirname(p)\<close>: the head up to the last slash, trailing slashes stripped
      unless the head is made of slashes only\<close>
  "dirname p =
     (let head = take (length p - length (basename p)) p
      in if head \<noteq> [] \<and> head \<noteq> replicate (length head) CHR ''/''
         then rstrip CHR ''/'' head else head)"

definition splitext :: "string \<Rightarrow> string \<times> string" where
  \<comment> \<open>\<open>os.path.splitext(p)\<close>: the extension starts at the last dot of the last component,
      provided a character other than a dot comes before it in that component\<close>
  "splitext p =
     (let tail = basename p;
          ext = after_last CHR ''.'' tail;
          pre = take (length tail - length ext - 1) tail
      in if CHR ''.'' \<in> set tail \<and> (\<exists>c \<in> set pre. c \<noteq> CHR ''.'')
         then (take (length p - length ext - 1) p, CHR ''.'' # ext)
         else (p, []))"

fun split_on :: "char \<Rightarrow> string \<Rightarrow> string list" where
  "split_on c [] = [[]]"
| "split_on c (x # xs) =
     (if x = c then [] # split_on c xs
      else (x # hd (split_on c xs)) # tl (split_on c xs))"

fun join_with :: "string \<Rightarrow> string list \<Rightarrow> string" where
  "join_with sep [] = []"
| "join_with sep [x] = x"
| "join_with sep (x # y # ys) = x @ sep @ join_with sep (y # ys)"

definition norm_step :: "nat \<Rightarrow> string list \<Rightarrow> string \<Rightarrow> string list" where
  \<comment> \<open>one round of the loop of \<open>posixpath.normpath\<close>\<close>
  "norm_step initial_slashes new_comps cmp =
     (if cmp = [] \<or> cmp = ''.'' then new_comps
      else if cmp \<noteq> ''..'' \<or> (initial_slashes = 0 \<and> new_comps = [])
              \<or> (new_comps \<noteq> [] \<and> last new_comps = ''..'')
        then new_comps @ [cmp]
      else if new_comps \<noteq> [] then butlast new_comps
      else new_comps)"

definition normpath :: "string \<Rightarrow> string" where
  "normpath path =
     (if path = [] then ''.''
      else
        let initial_slashes =
              (if startswith path ''/''
               then (if startswith path ''//'' \<and> \<not> startswith path ''///'' then 2 else 1)
               else (0::nat));
            comps = foldl (norm_step initial_slashes) [] (split_on CHR ''/'' path);
            p = replicate initial_slashes CHR ''/'' @ join_with ''/'' comps
        in if p = [] then ''.'' else p)"

definition abspath :: "string \<Rightarrow> string \<Rightarrow> string" where
  \<comment> \<open>\<open>os.path.abspath(p)\<close> in the working directory \<open>cwd\<close>\<close>
  "abspath cwd p = normpath (path_join cwd p)"

section \<open>Configuration and errors\<close>

record config =
  directory :: string
  prefix :: string
  suffix :: string
  numbering :: bool
  numbering_start :: int
  numbering_padding :: int
  timestamp :: bool
  timestamp_format :: string
  regex_pattern :: "string option"
  regex_replacement :: "string option"
  extensions :: "string list option"
  dry_run :: bool
  backup_dir :: "string option"
  log_file :: "string option"

definition truthy :: "string option \<Rightarrow> bool" where
  \<comment> \<open>\<open>bool(x)\<close> for \<open>x\<close> a string or \<open>None\<close>\<close>
  "truthy x = (case x of None \<Rightarrow> False | Some s \<Rightarrow> s \<noteq> [])"

definition or_empty :: "string option \<Rightarrow> string" where
  \<comment> \<open>\<open>x or ""\<close>\<close>
  "or_empty x = (case x of None \<Rightarrow> [] | Some s \<Rightarrow> s)"

definition normalize_extensions :: "string list option \<Rightarrow> string list option" where
  \<comment> \<open>\<open>BulkRenameConfig._normalize_extensions\<close>\<close>
  "normalize_extensions exts =
     (case exts of
        None \<Rightarrow> None
      | Some es \<Rightarrow>
          (let normalized =
                 map (\<lambda>e. if startswith (lower e) ''.'' then lower e else CHR ''.'' # lower e)
                     (filter (\<lambda>e. e \<noteq> []) es)
           in if normalized = [] then None else Some normalized))"

definition BulkRenameConfig ::
  "string \<Rightarrow> string option \<Rightarrow> string option \<Rightarrow> bool \<Rightarrow> int \<Rightarrow> int \<Rightarrow> bool \<Rightarrow> string \<Rightarrow>
   string option \<Rightarrow> string option \<Rightarrow> string list option \<Rightarrow> bool \<Rightarrow> string option \<Rightarrow>
   string option \<Rightarrow> config" where
  \<comment> \<open>\<open>BulkRenameConfig.__init__\<close>\<close>
  "BulkRenameConfig dir pre suf num start pad ts fmt pat repl exts dry bdir lfile =
     \<lparr> directory = dir, prefix = or_empty pre, suffix = or_empty suf, numbering = num,
       numbering_start = start, numbering_padding = pad, timestamp = ts,
       timestamp_format = fmt, regex_pattern = pat, regex_replacement = repl,
       extensions = normalize_extensions exts, dry_run = dry, backup_dir = bdir,
       log_file = lfile \<rparr>"

text \<open>
  One constructor for each place where the code raises. \<open>OSFailure\<close> stands for the
  \<open>OSError\<close>s that the library calls of the apply loop let through.
\<close>

datatype os_error = FileNotFound | IsADirectory | NotADirectory | SameFile | AlreadyExists

datatype error =
    DirectoryRequired
  | DirectoryNotFound string
  | PathNotDirectory string
  | NegativePadding
  | NegativeStart
  | RegexPairRequired
  | NoFilesFound
  | InvalidRegex
  | EmptyFileName string
  | TargetExists string
  | OSFailure os_error

datatype error_kind = ConfigError | NotFoundError | ConflictError | IOError

definition kind_of :: "error \<Rightarrow> error_kind" where
  \<comment> \<open>the taxonomy of the specification applied to the raise sites: the \<open>ValueError\<close>s
      are \<open>ConfigError\<close> or \<open>NotFoundError\<close>, \<open>FileExistsError\<close> is \<open>ConflictError\<close>\<close>
  "kind_of e =
     (case e of
        DirectoryRequired \<Rightarrow> ConfigError
      | DirectoryNotFound _ \<Rightarrow> NotFoundError
      | PathNotDirectory _ \<Rightarrow> ConfigError
      | NegativePadding \<Rightarrow> ConfigError
      | NegativeStart \<Rightarrow> ConfigError
      | RegexPairRequired \<Rightarrow> ConfigError
      | NoFilesFound \<Rightarrow> NotFoundError
      | InvalidRegex \<Rightarrow> ConfigError
      | EmptyFileName _ \<Rightarrow> ConfigError
      | TargetExists _ \<Rightarrow> ConflictError
      | OSFailure _ \<Rightarrow> IOError)"

section \<open>Files and documents\<close>

text \<open>
  A rename record is the dictionary of the code, with string values; \<open>None\<close> is an
  absent key. The log is the JSON document that \<open>_write_log\<close> dumps.
\<close>

record rename_record =
  original_name :: "string option"
  new_name :: "string option"
  original_path :: "string option"
  new_path :: "string option"
  skipped :: "string option"
  renamed_at :: "string option"

text \<open>
  What \<open>json.load\<close> makes of a file. An element of the list \<open>renamed_files\<close> is an
  object with string values, which is a record, or a value of another kind.
\<close>

datatype log_entry = Entry rename_record | NotAnObject

text \<open>
  The value under the key \<open>renamed_files\<close> of an object: the key is absent; the value
  is one that Python takes for false and is not a list (\<open>null\<close>, \<open>false\<close>, \<open>0\<close>, the
  empty string, the empty object); it is a list; it is \<open>true\<close> or a number other than
  \<open>0\<close>; it is a non-empty string; it is a non-empty object.
\<close>

datatype renamed_files_value =
    Absent
  | Falsy
  | Entries "log_entry list"
  | TruthyNumber
  | NonEmptyString
  | NonEmptyObject

text \<open>
  \<open>JsonNull\<close> is the document \<open>null\<close>, \<open>JsonOther\<close> an array, a string, a number or a
  boolean at top level, and \<open>JsonLog rf g\<close> an object with the value \<open>rf\<close> under
  \<open>renamed_files\<close>, whose key \<open>generated_at\<close> is absent or holds a string.
\<close>

datatype json_doc =
    JsonNull
  | JsonOther
  | JsonLog renamed_files_value "string option"

text \<open>
  The content of a regular file: \<open>Text s\<close> is a file with the bytes \<open>s\<close> that is not a JSON
  document, so \<open>json.load\<close> rejects it, with \<open>UnicodeDecodeError\<close> when the bytes are not
  UTF-8 and with \<open>JSONDecodeError\<close> when they are; \<open>Json d\<close> is a UTF-8 text that it
  parses to \<open>d\<close> (so \<open>json.dump\<close> of \<open>d\<close> writes \<open>Json d\<close>).
\<close>

datatype content = Text string | Json json_doc

datatype node = File content nat | Dir nat

text \<open>
  The file system maps a path to a node, a regular file with its content and
  modification time or a directory with its modification time. It is an association
  list: its order is the order in which \<open>os.scandir\<close> and \<open>glob.glob\<close> yield the entries.
  A file is reached under the path string the code forms for it (no symbolic links),
  and there are no access rights, so no \<open>PermissionError\<close>.
\<close>

type_synonym filesys = "(string \<times> node) list"

section \<open>The environment\<close>

text \<open>
  What a call reads from outside the file system: the working directory, the clock
  (one reading for the whole call: \<open>int(time.time())\<close> and \<open>time.strftime\<close> at that
  instant), \<open>re.sub\<close>, which answers \<open>None\<close> where it raises \<open>re.error\<close>, and the
  expansion that \<open>glob.glob\<close> makes of a directory pattern: \<open>glob_dirs ev fs pat\<close> are the
  paths that \<open>glob\<close> finds in \<open>fs\<close> for the directory part \<open>pat\<close> of a pattern when \<open>pat\<close>
  has a wildcard character.
\<close>

record env =
  cwd :: string
  now :: nat
  strftime :: "string \<Rightarrow> string"
  re_sub :: "string \<Rightarrow> string \<Rightarrow> string \<Rightarrow> string option"
  glob_dirs :: "filesys \<Rightarrow> string \<Rightarrow> string list"

section \<open>Name computation\<close>

definition number_token :: "config \<Rightarrow> int \<Rightarrow> string" where
  \<comment> \<open>\<open>str(counter).zfill(padding) if padding else str(counter)\<close>\<close>
  "number_token cfg counter =
     (let padding = max 0 (numbering_padding cfg)
      in if padding \<noteq> 0 then zfill (str_int counter) (nat padding) else str_int counter)"

definition timestamp_str :: "env \<Rightarrow> config \<Rightarrow> string" where
  \<comment> \<open>\<open>time.strftime(config.timestamp_format).replace(" ", "_")\<close>\<close>
  "timestamp_str ev cfg =
     map (\<lambda>c. if c = CHR '' '' then CHR ''_'' else c) (strftime ev (timestamp_format cfg))"

definition build_new_name :: "env \<Rightarrow> config \<Rightarrow> string \<Rightarrow> int \<Rightarrow> error + string" where
  \<comment> \<open>\<open>_build_new_name(original_name, config, counter)\<close>, with \<open>name\<close> for \<open>original_name\<close>\<close>
  "build_new_name ev cfg name counter =
     (let (stem, extension) = splitext name;
          substituted =
            (if truthy (regex_pattern cfg) \<and> truthy (regex_replacement cfg)
             then (case re_sub ev (the (regex_pattern cfg)) (the (regex_replacement cfg)) stem of
                     None \<Rightarrow> Inl InvalidRegex
                   | Some s \<Rightarrow> Inr s)
             else Inr stem)
      in case substituted of
           Inl e \<Rightarrow> Inl e
         | Inr s1 \<Rightarrow>
             if s1 = [] then Inl (EmptyFileName name)
             else
               let s2 = (if prefix cfg \<noteq> [] then prefix cfg @ s1 else s1);
                   s3 = (if suffix cfg \<noteq> [] then s2 @ suffix cfg else s2);
                   s4 = (if numbering cfg then s3 @ number_token cfg counter else s3);
                   s5 = (if timestamp cfg then s4 @ timestamp_str ev cfg else s4)
               in Inr (s5 @ extension))"

definition base_stem :: "env \<Rightarrow> config \<Rightarrow> string \<Rightarrow> error + string" where
  \<comment> \<open>the stem that \<open>_build_new_name\<close> has reached when it comes to the numbering: after
      the regex substitution, the prefix and the suffix\<close>
  "base_stem ev cfg name =
     (let stem = fst (splitext name);
          substituted =
            (if truthy (regex_pattern cfg) \<and> truthy (regex_replacement cfg)
             then (case re_sub ev (the (regex_pattern cfg)) (the (regex_replacement cfg)) stem of
                     None \<Rightarrow> Inl InvalidRegex
                   | Some s \<Rightarrow> Inr s)
             else Inr stem)
      in case substituted of
           Inl e \<Rightarrow> Inl e
         | Inr s1 \<Rightarrow>
             if s1 = [] then Inl (EmptyFileName name)
             else Inr ((if prefix cfg \<noteq> [] then prefix cfg @ s1 else s1)
                       @ (if suffix cfg \<noteq> [] then suffix cfg else [])))"

section \<open>File system operations\<close>

definition lookup :: "filesys \<Rightarrow> string \<Rightarrow> node option" where
  "lookup fs p = map_of fs p"

definition exists :: "filesys \<Rightarrow> string \<Rightarrow> bool" where
  \<comment> \<open>\<open>os.path.exists(p)\<close>\<close>
  "exists fs p = (lookup fs p \<noteq> None)"

definition is_file :: "filesys \<Rightarrow> string \<Rightarrow> bool" where
  "is_file fs p = (case lookup fs p of Some (File _ _) \<Rightarrow> True | _ \<Rightarrow> False)"

definition is_dir :: "filesys \<Rightarrow> string \<Rightarrow> bool" where
  \<comment> \<open>\<open>os.path.isdir(p)\<close>\<close>
  "is_dir fs p = (case lookup fs p of Some (Dir _) \<Rightarrow> True | _ \<Rightarrow> False)"

definition getmtime :: "filesys \<Rightarrow> string \<Rightarrow> nat" where
  "getmtime fs p = (case lookup fs p of Some (File _ m) \<Rightarrow> m | Some (Dir m) \<Rightarrow> m | None \<Rightarrow> 0)"

definition parent_ok :: "filesys \<Rightarrow> string \<Rightarrow> bool" where
  \<comment> \<open>the directory that is to hold \<open>p\<close> exists; an empty head is the working directory\<close>
  "parent_ok fs p = (dirname p = [] \<or> is_dir fs (dirname p))"

definition touch :: "nat \<Rightarrow> string \<Rightarrow> filesys \<Rightarrow> filesys" where
  \<comment> \<open>a directory's modification time changes when an entry is added to it or removed\<close>
  "touch t d fs = (if is_dir fs d then AList.update d (Dir t) fs else fs)"

definition put_node :: "nat \<Rightarrow> string \<Rightarrow> node \<Rightarrow> filesys \<Rightarrow> filesys" where
  "put_node t p n fs =
     AList.update p n (if exists fs p then fs else touch t (dirname p) fs)"

definition remove_node :: "nat \<Rightarrow> string \<Rightarrow> filesys \<Rightarrow> filesys" where
  "remove_node t p fs = touch t (dirname p) (AList.delete p fs)"

definition mkdir :: "nat \<Rightarrow> string \<Rightarrow> filesys \<Rightarrow> os_error + filesys" where
  "mkdir t p fs =
     (if exists fs p then Inl AlreadyExists
      else if \<not> parent_ok fs p then Inl FileNotFound
      else Inr (put_node t p (Dir t) fs))"

definition makedirs_head :: "string \<Rightarrow> string" where
  "makedirs_head name =
     (if basename name = [] then dirname (dirname name) else dirname name)"

definition makedirs_tail :: "string \<Rightarrow> string" where
  "makedirs_tail name =
     (if basename name = [] then basename (dirname name) else basename name)"

lemma length_rstrip: "length (rstrip c s) \<le> length s"
  unfolding rstrip_def using length_dropWhile_le [of "\<lambda>x. x = c" "rev s"] by simp

lemma length_dirname: "length (dirname p) \<le> length p - length (basename p)"
proof -
  let ?h = "take (length p - length (basename p)) p"
  have "length (dirname p) \<le> length ?h"
    unfolding dirname_def Let_def using length_rstrip [of "CHR ''/''" ?h] by simp
  then show ?thesis by simp
qed

lemma length_basename: "length (basename p) \<le> length p"
  unfolding basename_def after_last_def
  using length_takeWhile_le [of "\<lambda>x. x \<noteq> CHR ''/''" "rev p"] by simp

lemma length_makedirs_head:
  assumes "makedirs_tail name \<noteq> []"
  shows "length (makedirs_head name) < length name"
proof (cases "basename name = []")
  case True
  then have t: "basename (dirname name) \<noteq> []"
    using assms by (simp add: makedirs_tail_def)
  have a: "length (dirname (dirname name)) \<le> length (dirname name) - length (basename (dirname name))"
    by (rule length_dirname)
  have b: "length (basename (dirname name)) \<le> length (dirname name)"
    by (rule length_basename)
  have c: "0 < length (basename (dirname name))"
    using t by simp
  have d: "length (dirname name) \<le> length name"
    using length_dirname [of name] by simp
  have "length (dirname (dirname name)) < length name"
    using a b c d by linarith
  then show ?thesis
    using True by (simp add: makedirs_head_def)
next
  case False
  then have c: "0 < length (basename name)" by simp
  have b: "length (basename name) \<le> length name"
    by (rule length_basename)
  have "length (dirname name) < length name"
    using b c length_dirname [of name] by linarith
  then show ?thesis
    using False by (simp add: makedirs_head_def)
qed

function makedirs :: "nat \<Rightarrow> string \<Rightarrow> filesys \<Rightarrow> os_error + filesys" where
  "makedirs t name fs =
     (if makedirs_head name \<noteq> [] \<and> makedirs_tail name \<noteq> []
         \<and> \<not> exists fs (makedirs_head name)
      then (case makedirs t (makedirs_head name) fs of
              Inl e \<Rightarrow>
                (if e = AlreadyExists
                 then (if makedirs_tail name = ''.'' then Inr fs else mkdir t name fs)
                 else Inl e)
            | Inr fs' \<Rightarrow> (if makedirs_tail name = ''.'' then Inr fs' else mkdir t name fs'))
      else mkdir t name fs)"
  by pat_completeness auto
termination
  by (relation "measure (\<lambda>(t, name, fs). length name)") (auto simp: length_makedirs_head)

declare makedirs.simps [simp del]

definition ensure_directory :: "nat \<Rightarrow> string \<Rightarrow> filesys \<Rightarrow> os_error + filesys" where
  \<comment> \<open>\<open>_ensure_directory(path)\<close>\<close>
  "ensure_directory t path fs = (if \<not> exists fs path then makedirs t path fs else Inr fs)"

definition copy2 :: "nat \<Rightarrow> string \<Rightarrow> string \<Rightarrow> filesys \<Rightarrow> os_error + filesys" where
  \<comment> \<open>\<open>shutil.copy2(src, dst)\<close>: the copy has the content and the modification time of
      the source; a destination that is a directory receives the file under its base name,
      and the empty path cannot be opened\<close>
  "copy2 t src dst fs =
     (let dst' = (if is_dir fs dst then path_join dst (basename src) else dst)
      in case lookup fs src of
           None \<Rightarrow> Inl FileNotFound
         | Some (Dir _) \<Rightarrow> Inl IsADirectory
         | Some (File c m) \<Rightarrow>
             if dst' = src then Inl SameFile
             else if is_dir fs dst' then Inl IsADirectory
             else if dst' = [] \<or> \<not> parent_ok fs dst' then Inl FileNotFound
             else Inr (put_node t dst' (File c m) fs))"

definition os_replace :: "nat \<Rightarrow> string \<Rightarrow> string \<Rightarrow> filesys \<Rightarrow> os_error + filesys" where
  \<comment> \<open>\<open>os.replace(src, dst)\<close> for a regular file \<open>src\<close> (the program moves nothing else):
      an existing regular file at \<open>dst\<close> is overwritten, a directory there is an error; the
      file keeps its modification time\<close>
  "os_replace t src dst fs =
     (case lookup fs src of
        None \<Rightarrow> Inl FileNotFound
      | Some (Dir _) \<Rightarrow> Inl IsADirectory
      | Some (File c m) \<Rightarrow>
          if is_dir fs dst then Inl IsADirectory
          else if \<not> parent_ok fs dst then Inl FileNotFound
          else if src = dst then Inr fs
          else Inr (put_node t dst (File c m) (remove_node t src fs)))"

definition os_remove :: "nat \<Rightarrow> string \<Rightarrow> filesys \<Rightarrow> os_error + filesys" where
  "os_remove t p fs =
     (case lookup fs p of
        None \<Rightarrow> Inl FileNotFound
      | Some (Dir _) \<Rightarrow> Inl IsADirectory
      | Some (File _ _) \<Rightarrow> Inr (remove_node t p fs))"

definition write_file :: "nat \<Rightarrow> string \<Rightarrow> content \<Rightarrow> filesys \<Rightarrow> os_error + filesys" where
  \<comment> \<open>\<open>open(p, "w")\<close> and a write\<close>
  "write_file t p c fs =
     (if is_dir fs p then Inl IsADirectory
      else if \<not> parent_ok fs p then Inl FileNotFound
      else Inr (put_node t p (File c t) fs))"

definition scandir :: "filesys \<Rightarrow> string \<Rightarrow> (string \<times> string \<times> node) list" where
  \<comment> \<open>\<open>os.scandir(d)\<close>: name, path and node of the entries of \<open>d\<close>\<close>
  "scandir fs d =
     map (\<lambda>(p, n). (basename p, p, n))
       (filter (\<lambda>(p, n). basename p \<noteq> [] \<and> p = path_join d (basename p)) fs)"

definition has_magic :: "string \<Rightarrow> bool" where
  \<comment> \<open>\<open>glob.has_magic(s)\<close>: one of the wildcard characters \<open>*\<close>, \<open>?\<close> and \<open>[\<close> occurs\<close>
  "has_magic s = list_ex (\<lambda>c. c = CHR ''*'' \<or> c = CHR ''?'' \<or> c = CHR ''['') s"

definition glob_in_dir :: "filesys \<Rightarrow> string \<Rightarrow> string \<Rightarrow> string \<Rightarrow> string list" where
  \<comment> \<open>the entries of the directory \<open>dir\<close> whose names match \<open>pre + "*" + suf\<close>, as paths
      under \<open>dir\<close>; a name with a leading dot matches only a pattern with a leading dot\<close>
  "glob_in_dir fs dir pre suf =
     map (\<lambda>(name, p, n). p)
       (filter (\<lambda>(name, p, n). startswith name pre \<and> endswith name suf
                                \<and> length pre + length suf \<le> length name
                                \<and> (if startswith name ''.''
                                   then startswith (pre @ ''*'' @ suf) ''.'' else True))
          (scandir fs dir))"

definition glob :: "env \<Rightarrow> filesys \<Rightarrow> string \<Rightarrow> string \<Rightarrow> string \<Rightarrow> string list" where
  \<comment> \<open>\<open>glob.glob(os.path.join(d, pre + "*" + suf))\<close> for \<open>pre\<close> and \<open>suf\<close> without slash and
      without wildcard character: the pattern is split into its directory part and its
      last component; a directory part with a wildcard character is expanded to the
      directories it matches, any other is taken as it is\<close>
  "glob ev fs d pre suf =
     (let pathname = path_join d (pre @ ''*'' @ suf);
          dname = dirname pathname;
          dirs = (if dname \<noteq> pathname \<and> has_magic dname then glob_dirs ev fs dname
                  else [dname])
      in concat (map (\<lambda>dir. glob_in_dir fs dir pre suf) dirs))"

fun newest :: "filesys \<Rightarrow> string list \<Rightarrow> string option" where
  \<comment> \<open>\<open>ps.sort(key=os.path.getmtime, reverse=True); ps[0]\<close>: the sort is stable, so of
      several latest paths the first in \<open>ps\<close> is taken\<close>
  "newest fs [] = None"
| "newest fs (p # ps) =
     (case newest fs ps of
        None \<Rightarrow> Some p
      | Some q \<Rightarrow> if getmtime fs p < getmtime fs q then Some q else Some p)"

section \<open>Applying a configuration\<close>

definition validate :: "filesys \<Rightarrow> config \<Rightarrow> error option" where
  \<comment> \<open>\<open>BulkRenameConfig.validate\<close>: \<open>None\<close> when nothing is raised\<close>
  "validate fs cfg =
     (if directory cfg = [] then Some DirectoryRequired
      else if \<not> exists fs (directory cfg) then Some (DirectoryNotFound (directory cfg))
      else if \<not> is_dir fs (directory cfg) then Some (PathNotDirectory (directory cfg))
      else if numbering cfg \<and> numbering_padding cfg < 0 then Some NegativePadding
      else if numbering cfg \<and> numbering_start cfg < 0 then Some NegativeStart
      else if truthy (regex_pattern cfg) \<noteq> truthy (regex_replacement cfg)
        then Some RegexPairRequired
      else None)"

definition ext_matches :: "string list option \<Rightarrow> string \<Rightarrow> bool" where
  "ext_matches exts name =
     (case exts of
        None \<Rightarrow> True
      | Some es \<Rightarrow> es = [] \<or> lower (snd (splitext name)) \<in> set es)"

definition is_file_node :: "node \<Rightarrow> bool" where
  "is_file_node n = (case n of File _ _ \<Rightarrow> True | Dir _ \<Rightarrow> False)"

definition collect_files :: "filesys \<Rightarrow> string \<Rightarrow> string list option \<Rightarrow> string list" where
  \<comment> \<open>\<open>_collect_files(directory, extensions)\<close>\<close>
  "collect_files fs d exts =
     sort (map (\<lambda>(name, p, n). p)
             (filter (\<lambda>(name, p, n). is_file_node n \<and> ext_matches exts name) (scandir fs d)))"

record apply_result =
  renamed_count :: nat
  res_backup_dir :: "string option"
  res_log_file :: "string option"
  res_dry_run :: bool
  records :: "rename_record list"

definition write_log :: "env \<Rightarrow> string \<Rightarrow> rename_record list \<Rightarrow> filesys \<Rightarrow> os_error + filesys" where
  \<comment> \<open>\<open>_write_log(log_path, records)\<close>\<close>
  "write_log ev log_path recs fs =
     write_file (now ev) log_path
       (Json (JsonLog (Entries (map Entry recs))
                (Some (strftime ev ''%Y-%m-%d %H:%M:%S'')))) fs"

definition process_file ::
  "env \<Rightarrow> config \<Rightarrow> string \<Rightarrow> string \<Rightarrow> int \<Rightarrow> filesys \<Rightarrow> (error + rename_record) \<times> filesys" where
  \<comment> \<open>the body of the loop of \<open>rename_files\<close> for one collected path: the record it
      appends, or the error it raises, and the file system at that point\<close>
  "process_file ev cfg bdir file_path counter fs =
     (case build_new_name ev cfg (basename file_path) counter of
        Inl e \<Rightarrow> (Inl e, fs)
      | Inr name' \<Rightarrow>
          let npath = path_join (directory cfg) name';
              rec = \<lparr> original_name = Some (basename file_path), new_name = Some name',
                      original_path = Some file_path, new_path = Some npath,
                      skipped = None, renamed_at = None \<rparr>
          in if dry_run cfg then (Inr rec, fs)
             else if abspath (cwd ev) file_path = abspath (cwd ev) npath
               then (Inr (rec\<lparr>skipped := Some ''Name unchanged.''\<rparr>), fs)
             else if exists fs npath then (Inl (TargetExists npath), fs)
             else
               (case ensure_directory (now ev) bdir fs of
                  Inl e \<Rightarrow> (Inl (OSFailure e), fs)
                | Inr fs1 \<Rightarrow>
                    (case copy2 (now ev) file_path (path_join bdir (basename file_path)) fs1 of
                       Inl e \<Rightarrow> (Inl (OSFailure e), fs1)
                     | Inr fs2 \<Rightarrow>
                         (case os_replace (now ev) file_path npath fs2 of
                            Inl e \<Rightarrow> (Inl (OSFailure e), fs2)
                          | Inr fs3 \<Rightarrow>
                              (Inr (rec\<lparr>renamed_at :=
                                          Some (strftime ev ''%Y-%m-%d %H:%M:%S'')\<rparr>),
                               fs3)))))"

fun rename_loop ::
  "env \<Rightarrow> config \<Rightarrow> string \<Rightarrow> string list \<Rightarrow> int \<Rightarrow> rename_record list \<Rightarrow> filesys \<Rightarrow>
   (error + rename_record list) \<times> filesys" where
  \<comment> \<open>the loop of \<open>rename_files\<close> over the collected paths, with the counter and the
      records so far\<close>
  "rename_loop ev cfg bdir [] counter recs fs = (Inr recs, fs)"
| "rename_loop ev cfg bdir (file_path # rest) counter recs fs =
     (case process_file ev cfg bdir file_path counter fs of
        (Inl e, fs') \<Rightarrow> (Inl e, fs')
      | (Inr rec, fs') \<Rightarrow>
          rename_loop ev cfg bdir rest (if numbering cfg then counter + 1 else counter)
            (recs @ [rec]) fs')"

definition default_backup_dir :: "env \<Rightarrow> config \<Rightarrow> string" where
  \<comment> \<open>\<open>config.backup_dir or os.path.join(config.directory, f"backup_{int(time.time())}")\<close>\<close>
  "default_backup_dir ev cfg =
     (if truthy (backup_dir cfg) then the (backup_dir cfg)
      else path_join (directory cfg) (''backup_'' @ str_nat (now ev)))"

definition default_log_file :: "env \<Rightarrow> config \<Rightarrow> string" where
  "default_log_file ev cfg =
     (if truthy (log_file cfg) then the (log_file cfg)
      else path_join (directory cfg) (''rename_log_'' @ str_nat (now ev) @ ''.json''))"

definition rename_files :: "env \<Rightarrow> config \<Rightarrow> filesys \<Rightarrow> (error + apply_result) \<times> filesys" where
  \<comment> \<open>\<open>rename_files(config)\<close>: what it returns or raises, and the file system it leaves\<close>
  "rename_files ev cfg fs =
     (case validate fs cfg of
        Some e \<Rightarrow> (Inl e, fs)
      | None \<Rightarrow>
          let files = collect_files fs (directory cfg) (extensions cfg)
          in if files = [] then (Inl NoFilesFound, fs)
             else
               (case rename_loop ev cfg (default_backup_dir ev cfg) files
                       (numbering_start cfg) [] fs of
                  (Inl e, fs') \<Rightarrow> (Inl e, fs')
                | (Inr recs, fs') \<Rightarrow>
                    (case (if \<not> dry_run cfg
                           then write_log ev (default_log_file ev cfg) recs fs'
                           else Inr fs') of
                       Inl e \<Rightarrow> (Inl (OSFailure e), fs')
                     | Inr fs'' \<Rightarrow>
                         (Inr \<lparr> renamed_count = length recs,
                                res_backup_dir =
                                  (if \<not> dry_run cfg then Some (default_backup_dir ev cfg)
                                   else None),
                                res_log_file =
                                  (if \<not> dry_run cfg then Some (default_log_file ev cfg)
                                   else None),
                                res_dry_run = dry_run cfg,
                                records = recs \<rparr>, fs''))))"

section \<open>Undoing\<close>

text \<open>
  The exceptions that \<open>undo_rename\<close> lets through.
\<close>

datatype py_exception =
    IsADirectoryError
  | NotADirectoryError
  | UnicodeDecodeError
  | AttributeError
  | TypeError
  | KeyError

datatype status =
    SkippedNotRenamed
  | BackupMissing string
  | CurrentMissing string
  | Restored
  | Failed os_error

record undo_result =
  success :: bool
  restored_count :: nat
  skipped_count :: nat
  error_message :: string
  u_log_file :: string
  u_backup_dir :: string
  details :: "(string \<times> status) list"

definition find_latest_log :: "env \<Rightarrow> filesys \<Rightarrow> string \<Rightarrow> string option" where
  \<comment> \<open>\<open>find_latest_log(directory)\<close>\<close>
  "find_latest_log ev fs d = newest fs (glob ev fs d ''rename_log_'' ''.json'')"

definition ancestors :: "string \<Rightarrow> string list" where
  \<comment> \<open>the paths of the directories that \<open>p\<close> goes through: what stands before each of its
      slashes\<close>
  "ancestors p = map (\<lambda>i. take i p) (filter (\<lambda>i. p ! i = CHR ''/'') [0..<length p])"

definition under_file :: "filesys \<Rightarrow> string \<Rightarrow> bool" where
  \<comment> \<open>\<open>p\<close> goes through a regular file: opening it is \<open>NotADirectoryError\<close>\<close>
  "under_file fs p = list_ex (is_file fs) (ancestors p)"

definition load_rename_log :: "filesys \<Rightarrow> string \<Rightarrow> py_exception + json_doc option" where
  \<comment> \<open>\<open>load_rename_log(log_file)\<close>: only \<open>FileNotFoundError\<close> and \<open>JSONDecodeError\<close> are
      caught, so a file that is not UTF-8 raises; the answer \<open>None\<close> is also what the
      document \<open>null\<close> loads as\<close>
  "load_rename_log fs p =
     (case lookup fs p of
        None \<Rightarrow> if under_file fs p then Inl NotADirectoryError else Inr None
      | Some (Dir _) \<Rightarrow> Inl IsADirectoryError
      | Some (File (Text s) _) \<Rightarrow> if utf8 s then Inr None else Inl UnicodeDecodeError
      | Some (File (Json JsonNull) _) \<Rightarrow> Inr None
      | Some (File (Json d) _) \<Rightarrow> Inr (Some d))"

definition restore_record ::
  "env \<Rightarrow> string \<Rightarrow> rename_record \<Rightarrow> filesys \<Rightarrow> status \<times> filesys" where
  \<comment> \<open>the body of the loop of \<open>undo_rename\<close> for one record: the status it reports and
      the file system it leaves\<close>
  "restore_record ev bdir r fs =
     (let oname = or_empty (original_name r);
          nname = or_empty (new_name r);
          opath = or_empty (original_path r);
          npath = or_empty (new_path r)
      in if truthy (skipped r) then (SkippedNotRenamed, fs)
         else if \<not> exists fs (path_join bdir oname) then (BackupMissing oname, fs)
         else if \<not> exists fs npath then (CurrentMissing nname, fs)
         else
           (case copy2 (now ev) (path_join bdir oname) opath fs of
              Inl e \<Rightarrow> (Failed e, fs)
            | Inr fs1 \<Rightarrow>
                (case (if exists fs1 npath \<and> npath \<noteq> opath
                       then os_remove (now ev) npath fs1 else Inr fs1) of
                   Inl e \<Rightarrow> (Failed e, fs1)
                 | Inr fs2 \<Rightarrow> (Restored, fs2))))"

fun undo_loop ::
  "env \<Rightarrow> string \<Rightarrow> rename_record list \<Rightarrow> nat \<Rightarrow> nat \<Rightarrow> (string \<times> status) list \<Rightarrow> filesys \<Rightarrow>
   (nat \<times> nat \<times> (string \<times> status) list) \<times> filesys" where
  \<comment> \<open>the loop of \<open>undo_rename\<close> over the records of the log, with the two counts and
      the details so far\<close>
  "undo_loop ev bdir [] restored skippedn dets fs = ((restored, skippedn, dets), fs)"
| "undo_loop ev bdir (r # rest) restored skippedn dets fs =
     (case restore_record ev bdir r fs of
        (st, fs') \<Rightarrow>
          undo_loop ev bdir rest
            (if st = Restored then restored + 1 else restored)
            (if st = Restored then skippedn else skippedn + 1)
            (dets @ [(or_empty (original_name r), st)]) fs')"

fun entry_records :: "log_entry list \<Rightarrow> rename_record list" where
  \<comment> \<open>the records that the loop of \<open>undo_rename\<close> gets through: those before the first
      element that is not an object, on which \<open>record.get\<close> raises\<close>
  "entry_records [] = []"
| "entry_records (Entry r # es) = r # entry_records es"
| "entry_records (NotAnObject # es) = []"

definition undo_rename ::
  "env \<Rightarrow> string \<Rightarrow> string option \<Rightarrow> filesys \<Rightarrow> (py_exception + undo_result) \<times> filesys" where
  \<comment> \<open>\<open>undo_rename(directory, log_file)\<close>: what it returns or raises, and the file system
      it leaves\<close>
  "undo_rename ev d log_arg fs =
     (let result = \<lparr> success = False, restored_count = 0, skipped_count = 0,
                     error_message = [], u_log_file = [], u_backup_dir = [],
                     details = [] \<rparr>;
          no_records = result\<lparr>error_message := ''Log file contains no rename records.''\<rparr>
      in case (case log_arg of None \<Rightarrow> find_latest_log ev fs d | Some l \<Rightarrow> Some l) of
           None \<Rightarrow>
             (Inr (result\<lparr>error_message := ''No rename log files found in directory.''\<rparr>), fs)
         | Some lf \<Rightarrow>
             (case load_rename_log fs lf of
                Inl ex \<Rightarrow> (Inl ex, fs)
              | Inr None \<Rightarrow>
                  (Inr (result\<lparr>u_log_file := lf,
                               error_message := ''Failed to read log file: '' @ lf\<rparr>), fs)
              | Inr (Some JsonNull) \<Rightarrow>
                  (Inr (result\<lparr>u_log_file := lf,
                               error_message := ''Failed to read log file: '' @ lf\<rparr>), fs)
              | Inr (Some JsonOther) \<Rightarrow> (Inl AttributeError, fs)
              | Inr (Some (JsonLog Absent g)) \<Rightarrow> (Inr (no_records\<lparr>u_log_file := lf\<rparr>), fs)
              | Inr (Some (JsonLog Falsy g)) \<Rightarrow> (Inr (no_records\<lparr>u_log_file := lf\<rparr>), fs)
              | Inr (Some (JsonLog TruthyNumber g)) \<Rightarrow> (Inl TypeError, fs)
              | Inr (Some (JsonLog NonEmptyString g)) \<Rightarrow> (Inl AttributeError, fs)
              | Inr (Some (JsonLog NonEmptyObject g)) \<Rightarrow> (Inl KeyError, fs)
              | Inr (Some (JsonLog (Entries []) g)) \<Rightarrow>
                  (Inr (no_records\<lparr>u_log_file := lf\<rparr>), fs)
              | Inr (Some (JsonLog (Entries (NotAnObject # others)) g)) \<Rightarrow>
                  (Inl AttributeError, fs)
              | Inr (Some (JsonLog (Entries (Entry first_record # others)) g)) \<Rightarrow>
                  if or_empty (original_path first_record) = []
                  then (Inr (result\<lparr>u_log_file := lf,
                                    error_message :=
                                      ''Log file format invalid (missing original_path).''\<rparr>),
                        fs)
                  else
                    let parent_dir = dirname (or_empty (original_path first_record))
                    in (case newest fs (glob ev fs parent_dir ''backup_'' []) of
                          None \<Rightarrow>
                            (Inr (result\<lparr>u_log_file := lf,
                                         error_message :=
                                           ''No backup directories found in ''
                                             @ parent_dir\<rparr>), fs)
                        | Some bdir \<Rightarrow>
                            if \<not> exists fs bdir
                            then (Inr (result\<lparr>u_log_file := lf, u_backup_dir := bdir,
                                              error_message :=
                                                ''Backup directory not found: '' @ bdir\<rparr>),
                                  fs)
                            else
                              (case undo_loop ev bdir (first_record # entry_records others)
                                      0 0 [] fs of
                                 ((restored, skippedn, dets), fs') \<Rightarrow>
                                   if length (entry_records others) < length others
                                   then (Inl AttributeError, fs')
                                   else
                                     (Inr \<lparr> success = (0 < restored),
                                            restored_count = restored,
                                            skipped_count = skippedn,
                                            error_message =
                                              (if restored = 0
                                               then ''No files could be restored. Check backup directory.''
                                               else []),
                                            u_log_file = lf, u_backup_dir = bdir,
                                            details = dets \<rparr>, fs')))))"

section \<open>Examples of the path functions\<close>

lemma splitext_ex1: "splitext ''a.txt'' = (''a'', ''.txt'')"
  by (simp add: splitext_def basename_def after_last_def)

lemma splitext_ex2: "splitext ''.bashrc'' = (''.bashrc'', [])"
  by (simp add: splitext_def basename_def after_last_def)

lemma splitext_ex3: "splitext ''archive.tar.gz'' = (''archive.tar'', ''.gz'')"
  by (simp add: splitext_def basename_def after_last_def)

lemma dirname_ex1: "dirname ''d/a.txt'' = ''d''"
  by (simp add: dirname_def basename_def after_last_def rstrip_def)

lemma dirname_ex2: "dirname ''/a.txt'' = ''/''"
  by (simp add: dirname_def basename_def after_last_def rstrip_def)

lemma normpath_ex1: "normpath ''/w/d/./x/../a.txt'' = ''/w/d/a.txt''"
  by (simp add: normpath_def startswith_def norm_step_def)

lemma zfill_ex1: "zfill (str_int 5) 3 = ''005''"
  by (simp add: zfill_def str_int_def str_nat.simps digit_char_def eval_nat_numeral)

lemma zfill_ex2: "zfill (str_int (- 5)) 4 = ''-005''"
  by (simp add: zfill_def str_int_def str_nat.simps digit_char_def eval_nat_numeral)

section \<open>Inputs for the examples\<close>

definition demo_env :: env where
  \<comment> \<open>the clock reads 100; the examples that use this environment set no pattern, so its
      \<open>re_sub\<close> is never called; its \<open>glob_dirs\<close> finds no directory, as in a file system
      where no directory name matches the pattern\<close>
  "demo_env = \<lparr> cwd = ''/w'', now = 100, strftime = (\<lambda>f. ''2026-01-01 00:00:00''),
                re_sub = (\<lambda>p r s. Some s), glob_dirs = (\<lambda>fs pat. []) \<rparr>"

definition demo_fs :: filesys where
  \<comment> \<open>a directory \<open>d\<close> holding \<open>a.txt\<close>, \<open>b.txt\<close> and \<open>c.txt\<close>, listed in another order\<close>
  "demo_fs = [(''d'', Dir 1), (''d/c.txt'', File (Text ''C'') 2),
              (''d/a.txt'', File (Text ''A'') 3), (''d/b.txt'', File (Text ''B'') 4)]"

definition plain_config :: config where
  \<comment> \<open>the defaults of the constructor: no rule changes a name\<close>
  "plain_config =
     BulkRenameConfig ''d'' None None False 1 3 False ''%Y%m%d%H%M%S'' None None None False
       None None"

definition prefix_config :: config where
  \<comment> \<open>prefix \<open>x\<close>, everything else as by default\<close>
  "prefix_config =
     BulkRenameConfig ''d'' (Some ''x'') None False 1 3 False ''%Y%m%d%H%M%S'' None None None
       False None None"

definition numbering_config :: config where
  \<comment> \<open>numbering from 5 with padding 3\<close>
  "numbering_config =
     BulkRenameConfig ''d'' None None True 5 3 False ''%Y%m%d%H%M%S'' None None None False
       None None"

definition conflict_fs :: filesys where
  \<comment> \<open>a directory where prefixing \<open>a.txt\<close> with \<open>x\<close> meets the existing \<open>xa.txt\<close>\<close>
  "conflict_fs = [(''d'', Dir 1), (''d/a.txt'', File (Text ''A'') 2),
                  (''d/xa.txt'', File (Text ''X'') 3)]"

definition abort_fs :: filesys where
  \<comment> \<open>prefixing with \<open>x\<close>: \<open>a.txt\<close> moves to the free \<open>xa.txt\<close>, then \<open>b.txt\<close> meets the
      existing \<open>xb.txt\<close>\<close>
  "abort_fs = [(''d'', Dir 1), (''d/a.txt'', File (Text ''A'') 2),
               (''d/b.txt'', File (Text ''B'') 3), (''d/xb.txt'', File (Text ''X'') 4)]"

definition delete_c_env :: env where
  \<comment> \<open>an environment whose \<open>re.sub\<close> knows the pattern \<open>c(a?)\<close> with the replacement \<open>\1\<close>:
      every match is a \<open>c\<close> with an \<open>a\<close> after it or not, and is replaced by that \<open>a\<close> or
      by nothing, so the substitution deletes every \<open>c\<close>. No other pattern is used with
      this environment; it answers them like an invalid one.\<close>
  "delete_c_env =
     \<lparr> cwd = ''/w'', now = 100, strftime = (\<lambda>f. ''2026-01-01 00:00:00''),
       re_sub = (\<lambda>p r s. if p = ''c(a?)'' \<and> r = [CHR 0x5C, CHR ''1'']
                            then Some (filter (\<lambda>x. x \<noteq> CHR ''c'') s) else None),
       glob_dirs = (\<lambda>fs pat. []) \<rparr>"

definition delete_c_config :: config where
  "delete_c_config =
     BulkRenameConfig ''d'' None None False 1 3 False ''%Y%m%d%H%M%S''
       (Some ''c(a?)'') (Some [CHR 0x5C, CHR ''1'']) None False None None"

definition delete_c_fs :: filesys where
  \<comment> \<open>\<open>a.txt\<close> keeps its name, \<open>ca.txt\<close> becomes \<open>a.txt\<close>, the stem of \<open>cc.txt\<close> becomes empty\<close>
  "delete_c_fs = [(''d'', Dir 1), (''d/a.txt'', File (Text ''A'') 2),
                  (''d/ca.txt'', File (Text ''B'') 3), (''d/cc.txt'', File (Text ''C'') 4)]"

definition no_nul :: "string \<Rightarrow> bool" where
  \<comment> \<open>a path without a null byte; the system calls of Python raise \<open>ValueError\<close> on the
      others\<close>
  "no_nul p = (CHR 0x00 \<notin> set p)"

definition same_file :: "env \<Rightarrow> string \<Rightarrow> string \<Rightarrow> bool" where
  \<comment> \<open>two spellings of one path: equal after \<open>os.path.abspath\<close>\<close>
  "same_file ev p q = (abspath (cwd ev) p = abspath (cwd ev) q)"

definition absent :: "env \<Rightarrow> filesys \<Rightarrow> string \<Rightarrow> bool" where
  \<comment> \<open>no entry of the file system is reached by the path \<open>p\<close>, under any spelling, and \<open>p\<close>
      goes through no regular file: \<open>open(p)\<close> raises \<open>FileNotFoundError\<close>\<close>
  "absent ev fs p =
     list_all (\<lambda>(q, n). \<not> same_file ev q p
                        \<and> \<not> (is_file_node n \<and> list_ex (same_file ev q) (ancestors p))) fs"

definition log_unusable :: "env \<Rightarrow> filesys \<Rightarrow> string \<Rightarrow> string option \<Rightarrow> bool" where
  \<comment> \<open>the cases in which \<open>undo_rename\<close> gives up before its loop, for paths without null
      bytes: no log is found; the log does not exist; it is UTF-8 and not JSON, or is the
      document \<open>null\<close>; it is an object whose \<open>renamed_files\<close> is absent, false for Python or
      an empty list; the first element of that list is a record without a non-empty
      \<open>original_path\<close>; nothing named \<open>backup_*\<close> is found beside that path\<close>
  "log_unusable ev fs d log_arg =
     ((case log_arg of None \<Rightarrow> no_nul d | Some l \<Rightarrow> no_nul l)
      \<and> (case (case log_arg of None \<Rightarrow> find_latest_log ev fs d | Some l \<Rightarrow> Some l) of
        None \<Rightarrow> True
      | Some lf \<Rightarrow>
          (case lookup fs lf of
             None \<Rightarrow> absent ev fs lf
           | Some (Dir _) \<Rightarrow> False
           | Some (File (Text s) _) \<Rightarrow> utf8 s
           | Some (File (Json JsonNull) _) \<Rightarrow> True
           | Some (File (Json JsonOther) _) \<Rightarrow> False
           | Some (File (Json (JsonLog rf g)) _) \<Rightarrow>
               (case rf of
                  Absent \<Rightarrow> True
                | Falsy \<Rightarrow> True
                | Entries [] \<Rightarrow> True
                | Entries (NotAnObject # es) \<Rightarrow> False
                | Entries (Entry r # es) \<Rightarrow>
                    or_empty (original_path r) = []
                    \<or> (no_nul (or_empty (original_path r))
                        \<and> glob ev fs (dirname (or_empty (original_path r))) ''backup_'' [] = [])
                | TruthyNumber \<Rightarrow> False
                | NonEmptyString \<Rightarrow> False
                | NonEmptyObject \<Rightarrow> False))))"



section \<open>The loop of \<open>rename_files\<close>\<close>

lemma rename_loop_acc:
  "rename_loop ev cfg b files c recs fs =
     (case rename_loop ev cfg b files c [] fs of
        (Inl e, f) \<Rightarrow> (Inl e, f)
      | (Inr rs, f) \<Rightarrow> (Inr (recs @ rs), f))"
proof (induction files arbitrary: c recs fs)
  case Nil
  show ?case by simp
next
  case (Cons x xs)
  obtain res f1 where pf: "process_file ev cfg b x c fs = (res, f1)"
    by (cases "process_file ev cfg b x c fs")
  show ?case
  proof (cases res)
    case (Inl e)
    then show ?thesis using pf by simp
  next
    case (Inr r)
    let ?c = "if numbering cfg then c + 1 else c"
    have 1: "rename_loop ev cfg b xs ?c (recs @ [r]) f1 =
        (case rename_loop ev cfg b xs ?c [] f1 of
           (Inl e, f) \<Rightarrow> (Inl e, f)
         | (Inr rs, f) \<Rightarrow> (Inr ((recs @ [r]) @ rs), f))"
      by (rule Cons.IH)
    have 2: "rename_loop ev cfg b xs ?c [r] f1 =
        (case rename_loop ev cfg b xs ?c [] f1 of
           (Inl e, f) \<Rightarrow> (Inl e, f)
         | (Inr rs, f) \<Rightarrow> (Inr ([r] @ rs), f))"
      by (rule Cons.IH)
    show ?thesis
      using pf Inr 1 2 by (simp split: prod.splits sum.splits)
  qed
qed

lemma rename_loop_Cons:
  "rename_loop ev cfg b (x # xs) c [] fs =
     (case process_file ev cfg b x c fs of
        (Inl e, f1) \<Rightarrow> (Inl e, f1)
      | (Inr r, f1) \<Rightarrow>
          (case rename_loop ev cfg b xs (if numbering cfg then c + 1 else c) [] f1 of
             (Inl e, f2) \<Rightarrow> (Inl e, f2)
           | (Inr rs, f2) \<Rightarrow> (Inr (r # rs), f2)))"
proof -
  obtain res f1 where pf: "process_file ev cfg b x c fs = (res, f1)"
    by (cases "process_file ev cfg b x c fs")
  show ?thesis
  proof (cases res)
    case (Inl e)
    then show ?thesis using pf by simp
  next
    case (Inr r)
    show ?thesis
      using pf Inr rename_loop_acc [of ev cfg b xs "if numbering cfg then c + 1 else c" "[r]" f1]
      by (simp split: prod.splits sum.splits)
  qed
qed

lemma rename_loop_ConsE:
  assumes "rename_loop ev cfg b (x # xs) c [] fs = (Inr rs, fs')"
  obtains r rs' f1 where "process_file ev cfg b x c fs = (Inr r, f1)"
    and "rename_loop ev cfg b xs (if numbering cfg then c + 1 else c) [] f1 = (Inr rs', fs')"
    and "rs = r # rs'"
  using assms unfolding rename_loop_Cons by (auto split: prod.splits sum.splits)

lemma process_file_original_path:
  "process_file ev cfg b x c fs = (Inr r, f1) \<Longrightarrow> original_path r = Some x"
  unfolding process_file_def Let_def by (auto split: sum.splits if_splits)

lemma rename_loop_original_paths:
  "rename_loop ev cfg b files c [] fs = (Inr rs, fs') \<Longrightarrow> map original_path rs = map Some files"
proof (induction files arbitrary: c fs rs)
  case Nil
  then show ?case by simp
next
  case (Cons x xs)
  from Cons.prems obtain r rs' f1 where
    pf: "process_file ev cfg b x c fs = (Inr r, f1)" and
    rl: "rename_loop ev cfg b xs (if numbering cfg then c + 1 else c) [] f1 = (Inr rs', fs')" and
    rs: "rs = r # rs'"
    by (rule rename_loop_ConsE)
  show ?case
    using Cons.IH [OF rl] process_file_original_path [OF pf] rs by simp
qed

lemma rename_files_InrE:
  assumes "rename_files ev cfg fs = (Inr res, fs')"
  obtains f1 where "validate fs cfg = None"
    and "collect_files fs (directory cfg) (extensions cfg) \<noteq> []"
    and "rename_loop ev cfg (default_backup_dir ev cfg)
           (collect_files fs (directory cfg) (extensions cfg)) (numbering_start cfg) [] fs
         = (Inr (records res), f1)"
    and "renamed_count res = length (records res)"
    and "res_dry_run res = dry_run cfg"
    and "dry_run cfg \<Longrightarrow> fs' = f1 \<and> res_backup_dir res = None \<and> res_log_file res = None"
    and "\<not> dry_run cfg \<Longrightarrow>
           write_log ev (default_log_file ev cfg) (records res) f1 = Inr fs'
           \<and> res_backup_dir res = Some (default_backup_dir ev cfg)
           \<and> res_log_file res = Some (default_log_file ev cfg)"
  using assms unfolding rename_files_def Let_def
  by (auto split: option.splits if_splits prod.splits sum.splits)

section \<open>The count that \<open>rename_files\<close> reports\<close>

text \<open>
  Claim C9. Whenever \<open>rename_files\<close> returns, its \<open>renamed_count\<close> is the number of
  records of the plan, which is the number of collected paths, that is of the regular
  files of the directory that pass the extension filter. Records marked skipped and the
  records of a dry run are counted like the others.
\<close>

theorem renamed_count_is_plan_length:
  assumes "rename_files ev cfg fs = (Inr res, fs')"
  shows "renamed_count res = length (records res)
       \<and> length (records res) = length (collect_files fs (directory cfg) (extensions cfg))
       \<and> length (collect_files fs (directory cfg) (extensions cfg))
           = length (filter (\<lambda>(name, p, n). is_file_node n \<and> ext_matches (extensions cfg) name)
                       (scandir fs (directory cfg)))"
proof -
  from assms obtain f1 where
    rl: "rename_loop ev cfg (default_backup_dir ev cfg)
           (collect_files fs (directory cfg) (extensions cfg)) (numbering_start cfg) [] fs
         = (Inr (records res), f1)" and
    rc: "renamed_count res = length (records res)"
    by (rule rename_files_InrE)
  have "length (map original_path (records res))
      = length (map Some (collect_files fs (directory cfg) (extensions cfg)))"
    using rename_loop_original_paths [OF rl] by simp
  then have "length (records res) = length (collect_files fs (directory cfg) (extensions cfg))"
    by simp
  moreover have "length (collect_files fs (directory cfg) (extensions cfg))
      = length (filter (\<lambda>(name, p, n). is_file_node n \<and> ext_matches (extensions cfg) name)
                  (scandir fs (directory cfg)))"
    by (simp add: collect_files_def)
  ultimately show ?thesis using rc by simp
qed


text \<open>
  With the default configuration no name changes: the three records are all marked
  skipped, and the count is three.
\<close>

theorem renamed_count_is_plan_length_witness:
  "\<not> isl (fst (rename_files demo_env plain_config demo_fs))
   \<and> list_all (\<lambda>r. skipped r \<noteq> None)
        (records (projr (fst (rename_files demo_env plain_config demo_fs))))
   \<and> renamed_count (projr (fst (rename_files demo_env plain_config demo_fs))) = 3"
proof -
  have ok: "\<not> isl (fst (rename_files demo_env plain_config demo_fs))"
    by code_simp
  then obtain res fs' where h: "rename_files demo_env plain_config demo_fs = (Inr res, fs')"
    by (cases "rename_files demo_env plain_config demo_fs";
        cases "fst (rename_files demo_env plain_config demo_fs)") auto
  have n: "length (collect_files demo_fs (directory plain_config) (extensions plain_config)) = 3"
    by code_simp
  have sk: "list_all (\<lambda>r. skipped r \<noteq> None)
        (records (projr (fst (rename_files demo_env plain_config demo_fs))))"
    by code_simp
  from renamed_count_is_plan_length [OF h] n have "renamed_count res = 3"
    by simp
  then show ?thesis using ok sk h by simp
qed

section \<open>The marks on the records\<close>

lemma rename_loop_all:
  assumes step: "\<And>x c fs r f1. process_file ev cfg b x c fs = (Inr r, f1) \<Longrightarrow> P r"
    and run: "rename_loop ev cfg b files c [] fs = (Inr rs, fs')"
  shows "\<forall>r \<in> set rs. P r"
  using run
proof (induction files arbitrary: c fs rs)
  case Nil
  then show ?case by simp
next
  case (Cons x xs)
  from Cons.prems obtain r rs' f1 where
    pf: "process_file ev cfg b x c fs = (Inr r, f1)" and
    rl: "rename_loop ev cfg b xs (if numbering cfg then c + 1 else c) [] f1 = (Inr rs', fs')" and
    rs: "rs = r # rs'"
    by (rule rename_loop_ConsE)
  show ?case
    using Cons.IH [OF rl] step [OF pf] rs by simp
qed

lemma process_file_marks:
  assumes "process_file ev cfg b x c fs = (Inr r, f1)"
  shows "if dry_run cfg then skipped r = None \<and> renamed_at r = None
         else (skipped r \<noteq> None) \<noteq> (renamed_at r \<noteq> None)"
  using assms unfolding process_file_def Let_def
  by (auto split: sum.splits if_splits)

text \<open>
  Claim C7. Every record that \<open>rename_files\<close> returns from a run that is not a dry run
  carries exactly one of the keys \<open>skipped\<close> and \<open>renamed_at\<close>; the records of a dry
  run carry neither.
\<close>

theorem record_has_one_mark:
  assumes "rename_files ev cfg fs = (Inr res, fs')"
  shows "\<forall>r \<in> set (records res).
           if dry_run cfg then skipped r = None \<and> renamed_at r = None
           else (skipped r \<noteq> None) \<noteq> (renamed_at r \<noteq> None)"
proof -
  from assms obtain f1 where
    rl: "rename_loop ev cfg (default_backup_dir ev cfg)
           (collect_files fs (directory cfg) (extensions cfg)) (numbering_start cfg) [] fs
         = (Inr (records res), f1)"
    by (rule rename_files_InrE)
  show ?thesis
    by (rule rename_loop_all [OF _ rl]) (rule process_file_marks)
qed

theorem record_has_one_mark_witness:
  "\<not> isl (fst (rename_files demo_env prefix_config demo_fs))
   \<and> list_all (\<lambda>r. (skipped r \<noteq> None) \<noteq> (renamed_at r \<noteq> None))
        (records (projr (fst (rename_files demo_env prefix_config demo_fs))))"
proof -
  have ok: "\<not> isl (fst (rename_files demo_env prefix_config demo_fs))"
    by code_simp
  then obtain res fs' where h: "rename_files demo_env prefix_config demo_fs = (Inr res, fs')"
    by (cases "rename_files demo_env prefix_config demo_fs";
        cases "fst (rename_files demo_env prefix_config demo_fs)") auto
  have d: "\<not> dry_run prefix_config"
    by (simp add: prefix_config_def BulkRenameConfig_def)
  from record_has_one_mark [OF h] d
  have "\<forall>r \<in> set (records res). (skipped r \<noteq> None) \<noteq> (renamed_at r \<noteq> None)"
    by simp
  then have "list_all (\<lambda>r. (skipped r \<noteq> None) \<noteq> (renamed_at r \<noteq> None)) (records res)"
    by (simp add: list_all_iff)
  then show ?thesis using ok h by simp
qed

section \<open>Dry runs\<close>

lemma build_new_name_kind:
  "build_new_name ev cfg name c = Inl e \<Longrightarrow> e = InvalidRegex \<or> e = EmptyFileName name"
  unfolding build_new_name_def Let_def
  by (auto split: prod.splits sum.splits option.splits if_splits)

lemma process_file_dry:
  assumes "dry_run cfg"
  shows "process_file ev cfg b x c fs =
           (case build_new_name ev cfg (basename x) c of
              Inl e \<Rightarrow> Inl e
            | Inr name' \<Rightarrow>
                Inr \<lparr> original_name = Some (basename x), new_name = Some name',
                      original_path = Some x,
                      new_path = Some (path_join (directory cfg) name'),
                      skipped = None, renamed_at = None \<rparr>, fs)"
  using assms unfolding process_file_def Let_def by (simp split: sum.splits)

lemma rename_loop_dry:
  assumes "dry_run cfg"
  shows "rename_loop ev cfg b files c recs fs = (fst (rename_loop ev cfg b files c recs fs0), fs)"
proof (induction files arbitrary: c recs)
  case Nil
  show ?case by simp
next
  case (Cons x xs)
  show ?case
    using Cons.IH by (simp add: process_file_dry [OF assms] split: sum.splits)
qed

lemma rename_loop_dry_kind:
  assumes "dry_run cfg"
  shows "fst (rename_loop ev cfg b files c recs fs) = Inl e \<Longrightarrow> kind_of e = ConfigError"
proof (induction files arbitrary: c recs)
  case Nil
  then show ?case by simp
next
  case (Cons x xs)
  show ?case
  proof (cases "build_new_name ev cfg (basename x) c")
    case (Inl e')
    then have "e = e'"
      using Cons.prems by (simp add: process_file_dry [OF assms])
    then show ?thesis
      using build_new_name_kind [OF Inl] by (auto simp: kind_of_def)
  next
    case (Inr name')
    then show ?thesis
      using Cons.prems Cons.IH by (simp add: process_file_dry [OF assms])
  qed
qed

lemma validate_kind:
  "validate fs cfg = Some e \<Longrightarrow> kind_of e = ConfigError \<or> kind_of e = NotFoundError"
  unfolding validate_def by (auto simp: kind_of_def split: if_splits)


text \<open>
  Claim C6. A dry run leaves the file system as it found it (no backup copy, no rename,
  no log, no directory is made), reports neither a backup directory nor a log file, and
  what it raises is never the \<open>FileExistsError\<close> of a taken destination nor an error of
  the backup or rename calls.
\<close>

theorem dry_run_is_pure:
  assumes "dry_run cfg"
  shows "snd (rename_files ev cfg fs) = fs
       \<and> (\<forall>res. fst (rename_files ev cfg fs) = Inr res
              \<longrightarrow> res_backup_dir res = None \<and> res_log_file res = None)
       \<and> (\<forall>e. fst (rename_files ev cfg fs) = Inl e
              \<longrightarrow> kind_of e \<noteq> ConflictError \<and> kind_of e \<noteq> IOError)"
proof -
  let ?files = "collect_files fs (directory cfg) (extensions cfg)"
  let ?loop = "rename_loop ev cfg (default_backup_dir ev cfg) ?files (numbering_start cfg) [] fs"
  have pure: "snd ?loop = fs"
    using rename_loop_dry [OF assms, of ev "default_backup_dir ev cfg" ?files
        "numbering_start cfg" "[]" fs fs]
    by (metis snd_conv)
  have kind: "\<And>e. fst ?loop = Inl e \<Longrightarrow> kind_of e = ConfigError"
    by (rule rename_loop_dry_kind [OF assms])
  show ?thesis
  proof (cases "validate fs cfg")
    case (Some e)
    then show ?thesis
      using validate_kind [OF Some] by (auto simp: rename_files_def)
  next
    case None
    show ?thesis
    proof (cases "?files = []")
      case True
      then show ?thesis
        using None by (simp add: rename_files_def kind_of_def)
    next
      case False
      obtain r f1 where l: "?loop = (r, f1)"
        by (cases ?loop)
      then have f1: "f1 = fs"
        using pure by simp
      show ?thesis
      proof (cases r)
        case (Inl e)
        then have "kind_of e = ConfigError"
          using kind [of e] l by simp
        then show ?thesis
          using None False l Inl f1 by (simp add: rename_files_def)
      next
        case (Inr recs)
        then show ?thesis
          using None False l f1 assms by (simp add: rename_files_def)
      qed
    qed
  qed
qed


text \<open>
  On \<open>conflict_fs\<close> the prefix \<open>x\<close> sends \<open>a.txt\<close> onto the existing \<open>xa.txt\<close>; the dry
  run returns all the same and changes nothing.
\<close>

theorem dry_run_is_pure_witness:
  "dry_run (prefix_config\<lparr>dry_run := True\<rparr>)
   \<and> \<not> isl (fst (rename_files demo_env (prefix_config\<lparr>dry_run := True\<rparr>) conflict_fs))
   \<and> snd (rename_files demo_env (prefix_config\<lparr>dry_run := True\<rparr>) conflict_fs) = conflict_fs
   \<and> res_backup_dir
        (projr (fst (rename_files demo_env (prefix_config\<lparr>dry_run := True\<rparr>) conflict_fs)))
       = None
   \<and> res_log_file
        (projr (fst (rename_files demo_env (prefix_config\<lparr>dry_run := True\<rparr>) conflict_fs)))
       = None"
proof -
  have d: "dry_run (prefix_config\<lparr>dry_run := True\<rparr>)"
    by simp
  have ok: "\<not> isl (fst (rename_files demo_env (prefix_config\<lparr>dry_run := True\<rparr>) conflict_fs))"
    by code_simp
  then obtain res where
    r: "fst (rename_files demo_env (prefix_config\<lparr>dry_run := True\<rparr>) conflict_fs) = Inr res"
    by (cases "fst (rename_files demo_env (prefix_config\<lparr>dry_run := True\<rparr>) conflict_fs)") auto
  from dry_run_is_pure [OF d, of demo_env conflict_fs] r
  have "snd (rename_files demo_env (prefix_config\<lparr>dry_run := True\<rparr>) conflict_fs) = conflict_fs
      \<and> res_backup_dir res = None \<and> res_log_file res = None"
    by blast
  then show ?thesis
    using d ok r by simp
qed

section \<open>Numbering\<close>

lemma build_new_name_base_stem:
  "build_new_name ev cfg name c =
     (case base_stem ev cfg name of
        Inl e \<Rightarrow> Inl e
      | Inr s \<Rightarrow>
          Inr (s @ (if numbering cfg then number_token cfg c else [])
                 @ (if timestamp cfg then timestamp_str ev cfg else [])
                 @ snd (splitext name)))"
  unfolding build_new_name_def base_stem_def Let_def
  by (auto split: prod.splits sum.splits option.splits)

lemma digit_char_not_sign:
  assumes "k < 10"
  shows "digit_char k \<noteq> CHR ''-'' \<and> digit_char k \<noteq> CHR ''+''"
proof -
  have "digit_char k \<in> set ''0123456789''"
    unfolding digit_char_def using assms by (intro nth_mem) simp
  then show ?thesis by auto
qed

lemma str_nat_head: "str_nat n \<noteq> [] \<and> hd (str_nat n) \<noteq> CHR ''-'' \<and> hd (str_nat n) \<noteq> CHR ''+''"
proof (induction n rule: str_nat.induct)
  case (1 n)
  show ?case
  proof (cases "n < 10")
    case True
    then show ?thesis
      using digit_char_not_sign [of n] by (subst (1 2 3) str_nat.simps) simp
  next
    case False
    then show ?thesis
      using 1 by (subst (1 2 3) str_nat.simps) simp
  qed
qed

lemma number_token_padded:
  assumes "0 \<le> k"
  shows "number_token cfg k =
           replicate (nat (numbering_padding cfg) - length (str_int k)) CHR ''0'' @ str_int k"
proof -
  have s: "str_int k = str_nat (nat k)"
    using assms by (simp add: str_int_def)
  show ?thesis
    using str_nat_head [of "nat k"]
    by (auto simp: number_token_def Let_def zfill_def s max_def)
qed

lemma process_file_new_name:
  "process_file ev cfg b x c fs = (Inr r, f1) \<Longrightarrow>
     build_new_name ev cfg (basename x) c = Inr (the (new_name r)) \<and> new_name r \<noteq> None"
  unfolding process_file_def Let_def by (auto split: sum.splits if_splits)

lemma rename_loop_new_name:
  assumes "rename_loop ev cfg b files c [] fs = (Inr rs, fs')" and "i < length rs"
  shows "i < length files
       \<and> build_new_name ev cfg (basename (files ! i)) (if numbering cfg then c + int i else c)
           = Inr (the (new_name (rs ! i)))
       \<and> new_name (rs ! i) \<noteq> None"
  using assms
proof (induction files arbitrary: c fs rs i)
  case Nil
  then show ?case by simp
next
  case (Cons x xs)
  from Cons.prems(1) obtain r rs' f1 where
    pf: "process_file ev cfg b x c fs = (Inr r, f1)" and
    rl: "rename_loop ev cfg b xs (if numbering cfg then c + 1 else c) [] f1 = (Inr rs', fs')" and
    rs: "rs = r # rs'"
    by (rule rename_loop_ConsE)
  show ?case
  proof (cases i)
    case 0
    then show ?thesis
      using process_file_new_name [OF pf] rs by simp
  next
    case (Suc j)
    then have j: "j < length rs'"
      using Cons.prems(2) rs by simp
    have "(if numbering cfg then (if numbering cfg then c + 1 else c) + int j
           else (if numbering cfg then c + 1 else c))
          = (if numbering cfg then c + int i else c)"
      using Suc by simp
    then show ?thesis
      using Cons.IH [OF rl j] rs Suc by simp
  qed
qed

text \<open>
  Claim C2. With numbering enabled, the record of the \<open>i\<close>-th collected path (counting
  from 0, in the sorted order of the paths, whatever happened to the paths before it) has
  the counter value \<open>numbering_start + i\<close> appended to its stem: the decimal digits of the
  value, padded with zeros on the left to \<open>numbering_padding\<close> characters (not padded when
  the width is 0). The timestamp, when enabled, and the extension follow.
\<close>

theorem numbering_counts_every_file:
  assumes "rename_files ev cfg fs = (Inr res, fs')"
    and "numbering cfg"
    and "i < length (records res)"
  shows "\<exists>s. base_stem ev cfg (basename (collect_files fs (directory cfg) (extensions cfg) ! i))
               = Inr s
           \<and> new_name (records res ! i) =
               Some (s @ replicate (nat (numbering_padding cfg)
                                     - length (str_int (numbering_start cfg + int i))) CHR ''0''
                       @ str_int (numbering_start cfg + int i)
                       @ (if timestamp cfg then timestamp_str ev cfg else [])
                       @ snd (splitext (basename
                            (collect_files fs (directory cfg) (extensions cfg) ! i))))"
proof -
  let ?files = "collect_files fs (directory cfg) (extensions cfg)"
  let ?k = "numbering_start cfg + int i"
  from assms(1) obtain f1 where
    v: "validate fs cfg = None" and
    rl: "rename_loop ev cfg (default_backup_dir ev cfg) ?files (numbering_start cfg) [] fs
         = (Inr (records res), f1)"
    by (rule rename_files_InrE)
  have "0 \<le> numbering_start cfg"
    using v assms(2) by (simp add: validate_def split: if_splits)
  then have k: "0 \<le> ?k" by simp
  from rename_loop_new_name [OF rl assms(3)] assms(2) have
    b: "build_new_name ev cfg (basename (?files ! i)) ?k = Inr (the (new_name (records res ! i)))"
    and n: "new_name (records res ! i) \<noteq> None"
    by simp_all
  show ?thesis
  proof (cases "base_stem ev cfg (basename (?files ! i))")
    case (Inl e)
    then show ?thesis
      using b by (simp add: build_new_name_base_stem)
  next
    case (Inr s)
    then have "the (new_name (records res ! i)) =
        s @ number_token cfg ?k @ (if timestamp cfg then timestamp_str ev cfg else [])
          @ snd (splitext (basename (?files ! i)))"
      using b assms(2) by (simp add: build_new_name_base_stem)
    then show ?thesis
      using Inr n number_token_padded [OF k, of cfg] by auto
  qed
qed


text \<open>
  Start 5 and padding 3 over \<open>a.txt\<close>, \<open>b.txt\<close>, \<open>c.txt\<close>: the stems end in \<open>005\<close>,
  \<open>006\<close>, \<open>007\<close>.
\<close>

theorem numbering_counts_every_file_witness:
  "numbering numbering_config
   \<and> map new_name (records (projr (fst (rename_files demo_env numbering_config demo_fs))))
       = [Some ''a005.txt'', Some ''b006.txt'', Some ''c007.txt'']
   \<and> (\<exists>s. base_stem demo_env numbering_config ''c.txt'' = Inr s
          \<and> new_name (records (projr (fst (rename_files demo_env numbering_config demo_fs))) ! 2)
              = Some (s @ ''007'' @ ''.txt''))"
proof -
  have ok: "\<not> isl (fst (rename_files demo_env numbering_config demo_fs))"
    by code_simp
  then obtain res fs' where h: "rename_files demo_env numbering_config demo_fs = (Inr res, fs')"
    by (cases "rename_files demo_env numbering_config demo_fs";
        cases "fst (rename_files demo_env numbering_config demo_fs)") auto
  have n: "numbering numbering_config"
    by (simp add: numbering_config_def BulkRenameConfig_def)
  have names: "map new_name (records (projr (fst (rename_files demo_env numbering_config demo_fs))))
       = [Some ''a005.txt'', Some ''b006.txt'', Some ''c007.txt'']"
    by code_simp
  then have i: "2 < length (records res)"
    using h by (auto simp: map_eq_Cons_conv)
  have f: "basename (collect_files demo_fs (directory numbering_config)
             (extensions numbering_config) ! 2) = ''c.txt''"
    by code_simp
  have e: "snd (splitext ''c.txt'') = ''.txt''"
    by code_simp
  have t0: "replicate (nat (numbering_padding numbering_config)
                      - length (str_int (numbering_start numbering_config + int 2))) CHR ''0''
             @ str_int (numbering_start numbering_config + int 2) = ''007''"
    by code_simp
  have t: "replicate (nat (numbering_padding numbering_config)
                      - length (str_int (numbering_start numbering_config + int 2))) CHR ''0''
             @ str_int (numbering_start numbering_config + int 2) @ X = ''007'' @ X" for X
    using t0 by (metis append.assoc)
  have ts: "timestamp numbering_config = False"
    by (simp add: numbering_config_def BulkRenameConfig_def)
  from numbering_counts_every_file [OF h n i]
  have "\<exists>s. base_stem demo_env numbering_config ''c.txt'' = Inr s
          \<and> new_name (records res ! 2) = Some (s @ ''007'' @ ''.txt'')"
    by (simp only: f e t ts if_False append_Nil)
  then show ?thesis using n names h by simp
qed

section \<open>The order of the plan\<close>














section \<open>What the file system calls keep\<close>

definition dirs_only :: "filesys \<Rightarrow> filesys \<Rightarrow> bool" where
  \<comment> \<open>from \<open>fs\<close> to \<open>fs'\<close> nothing disappeared and the regular files are the same\<close>
  "dirs_only fs fs' =
     (\<forall>p. (exists fs p \<longrightarrow> exists fs' p)
        \<and> (\<forall>c m. (lookup fs' p = Some (File c m)) = (lookup fs p = Some (File c m))))"

definition no_new_content :: "filesys \<Rightarrow> filesys \<Rightarrow> bool" where
  \<comment> \<open>every regular file of \<open>fs'\<close> has the content and time of a regular file of \<open>fs\<close>\<close>
  "no_new_content fs fs' =
     (\<forall>p c m. lookup fs' p = Some (File c m) \<longrightarrow> (\<exists>q. lookup fs q = Some (File c m)))"

lemma lookup_update: "lookup (AList.update k v fs) q = (if q = k then Some v else lookup fs q)"
  by (simp add: lookup_def update_conv')

lemma lookup_delete: "lookup (AList.delete k fs) q = (if q = k then None else lookup fs q)"
  by (simp add: lookup_def delete_conv')

lemma lookup_touch:
  "lookup (touch t d fs) p = (if p = d \<and> is_dir fs d then Some (Dir t) else lookup fs p)"
  by (simp add: touch_def lookup_update)

lemma lookup_put_node:
  "lookup (put_node t p n fs) q =
     (if q = p then Some n
      else if \<not> exists fs p \<and> q = dirname p \<and> is_dir fs q then Some (Dir t)
      else lookup fs q)"
  by (auto simp: put_node_def lookup_update lookup_touch)

lemma lookup_remove_node:
  "lookup (remove_node t p fs) q =
     (if q = p then None
      else if q = dirname p \<and> is_dir fs q then Some (Dir t)
      else lookup fs q)"
  by (auto simp: remove_node_def lookup_touch lookup_delete is_dir_def)

lemma dirs_only_refl: "dirs_only fs fs"
  by (simp add: dirs_only_def)

lemma dirs_only_trans: "dirs_only a b \<Longrightarrow> dirs_only b c \<Longrightarrow> dirs_only a c"
  by (simp add: dirs_only_def)

lemma mkdir_dirs_only: "mkdir t p fs = Inr fs' \<Longrightarrow> dirs_only fs fs'"
  by (auto simp: mkdir_def dirs_only_def lookup_put_node exists_def is_dir_def
           split: if_splits option.splits node.splits)

lemma makedirs_dirs_only: "makedirs t name fs = Inr fs' \<Longrightarrow> dirs_only fs fs'"
proof (induction t name fs arbitrary: fs' rule: makedirs.induct)
  case (1 t name fs)
  let ?c = "makedirs_head name \<noteq> [] \<and> makedirs_tail name \<noteq> []
                 \<and> \<not> exists fs (makedirs_head name)"
  show ?case
  proof (cases ?c)
    case False
    have "makedirs t name fs = mkdir t name fs"
      by (subst makedirs.simps) (simp only: False if_False)
    then have "mkdir t name fs = Inr fs'"
      using "1.prems" by simp
    then show ?thesis by (rule mkdir_dirs_only)
  next
    case True
    have eq: "makedirs t name fs =
        (case makedirs t (makedirs_head name) fs of
           Inl e \<Rightarrow>
             (if e = AlreadyExists
              then (if makedirs_tail name = ''.'' then Inr fs else mkdir t name fs)
              else Inl e)
         | Inr f1 \<Rightarrow> (if makedirs_tail name = ''.'' then Inr f1 else mkdir t name f1))"
      by (subst makedirs.simps) (simp only: True if_True simp_thms)
    show ?thesis
    proof (cases "makedirs t (makedirs_head name) fs")
      case (Inl e)
      then have "(if makedirs_tail name = ''.'' then Inr fs else mkdir t name fs) = Inr fs'"
        using "1.prems" eq by (simp split: if_splits)
      then show ?thesis
        using mkdir_dirs_only [of t name fs fs'] dirs_only_refl [of fs]
        by (auto split: if_splits)
    next
      case (Inr f1)
      have a: "dirs_only fs f1"
        using "1.IH" True Inr by simp
      have "(if makedirs_tail name = ''.'' then Inr f1 else mkdir t name f1) = Inr fs'"
        using "1.prems" eq Inr by simp
      then have "dirs_only f1 fs'"
        using mkdir_dirs_only [of t name f1 fs'] dirs_only_refl [of f1]
        by (auto split: if_splits)
      then show ?thesis
        using a by (rule dirs_only_trans [rotated])
    qed
  qed
qed

lemma ensure_directory_dirs_only: "ensure_directory t p fs = Inr fs' \<Longrightarrow> dirs_only fs fs'"
  using makedirs_dirs_only [of t p fs fs'] dirs_only_refl [of fs]
  by (auto simp: ensure_directory_def split: if_splits)

lemma copy2_cases:
  assumes "copy2 t src dst fs = Inr fs'"
  obtains c m dst' where "lookup fs src = Some (File c m)"
    and "dst' \<noteq> src" and "\<not> is_dir fs dst'"
    and "fs' = put_node t dst' (File c m) fs"
  using assms unfolding copy2_def Let_def
  by (auto split: option.splits node.splits if_splits)

lemma os_replace_cases:
  assumes "os_replace t src dst fs = Inr fs'"
  obtains c m where "lookup fs src = Some (File c m)"
    and "\<not> is_dir fs dst"
    and "fs' = (if src = dst then fs else put_node t dst (File c m) (remove_node t src fs))"
  using assms unfolding os_replace_def
  by (auto split: option.splits node.splits if_splits)

text \<open>What a step of the loop keeps: every path but the one it moves.\<close>

definition keeps_but :: "string \<Rightarrow> filesys \<Rightarrow> filesys \<Rightarrow> bool" where
  "keeps_but x fs fs' =
     (\<forall>p. p \<noteq> x \<longrightarrow> (exists fs p \<longrightarrow> exists fs' p) \<and> (is_file fs p \<longrightarrow> is_file fs' p))"

lemma keeps_but_refl: "keeps_but x fs fs"
  by (simp add: keeps_but_def)

lemma keeps_but_trans: "keeps_but x a b \<Longrightarrow> keeps_but x b c \<Longrightarrow> keeps_but x a c"
  by (simp add: keeps_but_def)

lemma is_file_iff: "is_file fs p = (\<exists>c m. lookup fs p = Some (File c m))"
  by (auto simp: is_file_def split: option.splits node.splits)

lemma is_dir_iff: "is_dir fs p = (\<exists>m. lookup fs p = Some (Dir m))"
  by (auto simp: is_dir_def split: option.splits node.splits)

lemma dirs_only_keeps:
  assumes "dirs_only fs fs'"
  shows "keeps_but x fs fs'"
  unfolding keeps_but_def
proof (intro allI impI conjI)
  fix p
  assume "exists fs p"
  then show "exists fs' p"
    using assms by (simp add: dirs_only_def)
next
  fix p
  assume "is_file fs p"
  then obtain c m where "lookup fs p = Some (File c m)"
    by (auto simp: is_file_iff)
  then have "lookup fs' p = Some (File c m)"
    using assms by (simp add: dirs_only_def)
  then show "is_file fs' p"
    by (auto simp: is_file_iff)
qed

lemma copy2_keeps: "copy2 t src dst fs = Inr fs' \<Longrightarrow> keeps_but x fs fs'"
  by (erule copy2_cases)
     (auto simp: keeps_but_def lookup_put_node exists_def is_file_def is_dir_def
           split: option.splits node.splits)

lemma os_replace_keeps: "os_replace t src dst fs = Inr fs' \<Longrightarrow> keeps_but src fs fs'"
  by (erule os_replace_cases)
     (auto simp: keeps_but_def lookup_put_node lookup_remove_node exists_def is_file_def
                 is_dir_def
           split: option.splits node.splits if_splits)

lemma process_file_keeps: "process_file ev cfg b x c fs = (res, f1) \<Longrightarrow> keeps_but x fs f1"
  unfolding process_file_def Let_def
  by (auto split: sum.splits if_splits
           intro: keeps_but_refl keeps_but_trans
           dest!: ensure_directory_dirs_only [THEN dirs_only_keeps [of _ _ x]]
                  copy2_keeps [of _ _ _ _ _ x] os_replace_keeps)

section \<open>A taken destination\<close>

lemma rename_loop_keeps:
  assumes "rename_loop ev cfg b files c recs fs = (res, fs')" and "p \<notin> set files"
  shows "(exists fs p \<longrightarrow> exists fs' p) \<and> (is_file fs p \<longrightarrow> is_file fs' p)"
  using assms
proof (induction files arbitrary: c recs fs)
  case Nil
  then show ?case by simp
next
  case (Cons x xs)
  obtain r1 f1 where pf: "process_file ev cfg b x c fs = (r1, f1)"
    by (cases "process_file ev cfg b x c fs")
  have k: "(exists fs p \<longrightarrow> exists f1 p) \<and> (is_file fs p \<longrightarrow> is_file f1 p)"
    using process_file_keeps [OF pf] Cons.prems(2) by (simp add: keeps_but_def)
  show ?case
  proof (cases r1)
    case (Inl e)
    then have "fs' = f1"
      using Cons.prems(1) pf by simp
    then show ?thesis using k by simp
  next
    case (Inr r)
    then have "rename_loop ev cfg b xs (if numbering cfg then c + 1 else c) (recs @ [r]) f1
        = (res, fs')"
      using Cons.prems(1) pf by simp
    from Cons.IH [OF this] Cons.prems(2) k show ?thesis by simp
  qed
qed

lemma process_file_renamed:
  assumes "process_file ev cfg b x c fs = (Inr r, f1)" and "renamed_at r \<noteq> None"
  shows "new_path r \<noteq> None \<and> \<not> exists fs (the (new_path r)) \<and> is_file f1 (the (new_path r))"
proof -
  obtain name' where bn: "build_new_name ev cfg (basename x) c = Inr name'"
    using assms(1) unfolding process_file_def by (auto split: sum.splits)
  let ?np = "path_join (directory cfg) name'"
  from assms bn obtain g1 g2 where
    ne: "\<not> exists fs ?np" and np: "new_path r = Some ?np" and
    rp: "os_replace (now ev) x ?np g2 = Inr f1"
    unfolding process_file_def Let_def by (auto split: sum.splits if_splits)
  from rp have "is_file f1 ?np"
    by (rule os_replace_cases) (auto simp: is_file_iff lookup_put_node)
  then show ?thesis using ne np by simp
qed

lemma rename_loop_renamed_exist:
  assumes "rename_loop ev cfg b files c [] fs = (Inr rs, fs')"
    and "distinct files" and "\<forall>f \<in> set files. exists fs f"
  shows "\<forall>r \<in> set rs. renamed_at r \<noteq> None \<longrightarrow> is_file fs' (the (new_path r))"
  using assms
proof (induction files arbitrary: c fs rs)
  case Nil
  then show ?case by simp
next
  case (Cons x xs)
  from Cons.prems(1) obtain r rs' f1 where
    pf: "process_file ev cfg b x c fs = (Inr r, f1)" and
    rl: "rename_loop ev cfg b xs (if numbering cfg then c + 1 else c) [] f1 = (Inr rs', fs')" and
    rs: "rs = r # rs'"
    by (rule rename_loop_ConsE)
  have ex: "\<forall>f \<in> set xs. exists f1 f"
    using process_file_keeps [OF pf] Cons.prems(2,3) by (auto simp: keeps_but_def)
  have tl: "\<forall>r \<in> set rs'. renamed_at r \<noteq> None \<longrightarrow> is_file fs' (the (new_path r))"
    using Cons.IH [OF rl _ ex] Cons.prems(2) by simp
  have hd: "is_file fs' (the (new_path r))" if "renamed_at r \<noteq> None"
  proof -
    from process_file_renamed [OF pf that] have
      ne: "\<not> exists fs (the (new_path r))" and f: "is_file f1 (the (new_path r))"
      by simp_all
    have "the (new_path r) \<notin> set xs"
      using ne Cons.prems(3) by auto
    from rename_loop_keeps [OF rl this] f show ?thesis by simp
  qed
  show ?case using hd tl rs by simp
qed

lemma rename_loop_append:
  "rename_loop ev cfg b (xs @ ys) c [] fs =
     (case rename_loop ev cfg b xs c [] fs of
        (Inl e, f) \<Rightarrow> (Inl e, f)
      | (Inr rs, f) \<Rightarrow>
          (case rename_loop ev cfg b ys (if numbering cfg then c + int (length xs) else c) [] f of
             (Inl e, f2) \<Rightarrow> (Inl e, f2)
           | (Inr rs2, f2) \<Rightarrow> (Inr (rs @ rs2), f2)))"
proof (induction xs arbitrary: c fs)
  case Nil
  show ?case by (simp split: prod.splits sum.splits)
next
  case (Cons x xs)
  have n: "(if numbering cfg then (if numbering cfg then c + 1 else c) + int (length xs)
            else (if numbering cfg then c + 1 else c))
         = (if numbering cfg then c + int (length (x # xs)) else c)"
    by simp
  show ?case
    unfolding append_Cons rename_loop_Cons Cons.IH n
    by (simp split: prod.splits sum.splits)
qed

lemma scandir_paths:
  "map (\<lambda>(name, p, n). p) (filter Q (scandir fs d)) =
   map fst (filter (\<lambda>(p, n). (basename p \<noteq> [] \<and> p = path_join d (basename p))
                              \<and> Q (basename p, p, n)) fs)"
  unfolding scandir_def by (induction fs) auto

lemma collect_files_distinct:
  assumes "distinct (map fst fs)"
  shows "distinct (collect_files fs d e)"
  unfolding collect_files_def scandir_paths
  using assms by (simp add: distinct_map_filter)

lemma collect_files_are_files:
  assumes "distinct (map fst fs)" and "p \<in> set (collect_files fs d e)"
  shows "is_file fs p"
proof -
  from assms(2) obtain n where m: "(p, n) \<in> set fs" and f: "is_file_node n"
    unfolding collect_files_def scandir_paths by auto
  have "map_of fs p = Some n"
    using assms(1) m by simp
  then show ?thesis
    using f by (auto simp: is_file_def lookup_def is_file_node_def split: node.splits)
qed

lemma is_file_exists: "is_file fs p \<Longrightarrow> exists fs p"
  by (auto simp: is_file_iff exists_def)

text \<open>
  Claim C5. In a run that is not a dry run, let the loop reach a collected path \<open>x\<close>, the
  paths \<open>before\<close> it having been processed, and let the new path computed for \<open>x\<close> differ
  from \<open>x\<close> and exist. Then \<open>rename_files\<close> raises \<open>FileExistsError\<close> for that path; the
  file system it leaves is the one the earlier paths left, so neither \<open>x\<close> nor a later path
  is touched and nothing is rolled back: every earlier record that was renamed still has a
  regular file at its new path.
\<close>

theorem conflict_aborts_without_rollback:
  assumes "validate fs cfg = None"
    and "distinct (map fst fs)"
    and "\<not> dry_run cfg"
    and "collect_files fs (directory cfg) (extensions cfg) = before @ x # rest"
    and "rename_loop ev cfg (default_backup_dir ev cfg) before (numbering_start cfg) [] fs
         = (Inr rs, fs1)"
    and "build_new_name ev cfg (basename x)
           (if numbering cfg then numbering_start cfg + int (length before)
            else numbering_start cfg) = Inr name'"
    and "abspath (cwd ev) x \<noteq> abspath (cwd ev) (path_join (directory cfg) name')"
    and "exists fs1 (path_join (directory cfg) name')"
  shows "rename_files ev cfg fs = (Inl (TargetExists (path_join (directory cfg) name')), fs1)
       \<and> kind_of (TargetExists (path_join (directory cfg) name')) = ConflictError
       \<and> (\<forall>r \<in> set rs. renamed_at r \<noteq> None \<longrightarrow> is_file fs1 (the (new_path r)))"
proof -
  let ?b = "default_backup_dir ev cfg"
  let ?c = "if numbering cfg then numbering_start cfg + int (length before)
            else numbering_start cfg"
  have pf: "process_file ev cfg ?b x ?c fs1
      = (Inl (TargetExists (path_join (directory cfg) name')), fs1)"
    using assms(3,6,7,8) by (simp add: process_file_def Let_def)
  have "rename_loop ev cfg ?b (x # rest) ?c [] fs1
      = (Inl (TargetExists (path_join (directory cfg) name')), fs1)"
    unfolding rename_loop_Cons pf by simp
  then have "rename_loop ev cfg ?b (before @ x # rest) (numbering_start cfg) [] fs
      = (Inl (TargetExists (path_join (directory cfg) name')), fs1)"
    unfolding rename_loop_append assms(5) by simp
  then have 1: "rename_files ev cfg fs
      = (Inl (TargetExists (path_join (directory cfg) name')), fs1)"
    using assms(1,4) by (simp add: rename_files_def)
  have d: "distinct (before @ x # rest)"
    using collect_files_distinct [OF assms(2), of "directory cfg" "extensions cfg"] assms(4)
    by simp
  have e: "\<forall>f \<in> set before. exists fs f"
    using collect_files_are_files [OF assms(2), of _ "directory cfg" "extensions cfg"] assms(4)
    by (auto intro: is_file_exists)
  have 2: "\<forall>r \<in> set rs. renamed_at r \<noteq> None \<longrightarrow> is_file fs1 (the (new_path r))"
    using rename_loop_renamed_exist [OF assms(5) _ e] d by simp
  show ?thesis using 1 2 by (simp add: kind_of_def)
qed


text \<open>
  On \<open>abort_fs\<close> with the prefix \<open>x\<close>: \<open>a.txt\<close> is moved to \<open>xa.txt\<close>, then \<open>b.txt\<close> meets
  \<open>xb.txt\<close>.
\<close>

theorem conflict_aborts_without_rollback_witness:
  "rename_files demo_env prefix_config abort_fs
     = (Inl (TargetExists ''d/xb.txt''),
        snd (rename_loop demo_env prefix_config (default_backup_dir demo_env prefix_config)
               [''d/a.txt''] (numbering_start prefix_config) [] abort_fs))
   \<and> map new_path (projr (fst (rename_loop demo_env prefix_config
          (default_backup_dir demo_env prefix_config)
          [''d/a.txt''] (numbering_start prefix_config) [] abort_fs))) = [Some ''d/xa.txt'']
   \<and> is_file (snd (rename_loop demo_env prefix_config
                    (default_backup_dir demo_env prefix_config)
                    [''d/a.txt''] (numbering_start prefix_config) [] abort_fs)) ''d/xa.txt''"
proof -
  have h1: "validate abort_fs prefix_config = None"
    by code_simp
  have h2: "distinct (map fst abort_fs)"
    by code_simp
  have h3: "\<not> dry_run prefix_config"
    by (simp add: prefix_config_def BulkRenameConfig_def)
  have h4: "collect_files abort_fs (directory prefix_config) (extensions prefix_config)
      = [''d/a.txt''] @ ''d/b.txt'' # [''d/xb.txt'']"
    by code_simp
  have h5: "rename_loop demo_env prefix_config (default_backup_dir demo_env prefix_config)
        [''d/a.txt''] (numbering_start prefix_config) [] abort_fs
      = (Inr (projr (fst (rename_loop demo_env prefix_config
                (default_backup_dir demo_env prefix_config)
                [''d/a.txt''] (numbering_start prefix_config) [] abort_fs))),
         snd (rename_loop demo_env prefix_config (default_backup_dir demo_env prefix_config)
                [''d/a.txt''] (numbering_start prefix_config) [] abort_fs))"
    by code_simp
  have h6: "build_new_name demo_env prefix_config (basename ''d/b.txt'')
        (if numbering prefix_config
         then numbering_start prefix_config + int (length [''d/a.txt''])
         else numbering_start prefix_config) = Inr ''xb.txt''"
    by code_simp
  have h7: "abspath (cwd demo_env) ''d/b.txt''
      \<noteq> abspath (cwd demo_env) (path_join (directory prefix_config) ''xb.txt'')"
    by code_simp
  have h8: "exists (snd (rename_loop demo_env prefix_config
                (default_backup_dir demo_env prefix_config)
                [''d/a.txt''] (numbering_start prefix_config) [] abort_fs))
        (path_join (directory prefix_config) ''xb.txt'')"
    by code_simp
  have p: "path_join (directory prefix_config) ''xb.txt'' = ''d/xb.txt''"
    by code_simp
  have n: "map new_path (projr (fst (rename_loop demo_env prefix_config
          (default_backup_dir demo_env prefix_config)
          [''d/a.txt''] (numbering_start prefix_config) [] abort_fs))) = [Some ''d/xa.txt'']"
    by code_simp
  have r: "list_all (\<lambda>r. renamed_at r \<noteq> None \<and> the (new_path r) = ''d/xa.txt'')
        (projr (fst (rename_loop demo_env prefix_config
          (default_backup_dir demo_env prefix_config)
          [''d/a.txt''] (numbering_start prefix_config) [] abort_fs)))"
    by code_simp
  have e: "projr (fst (rename_loop demo_env prefix_config
          (default_backup_dir demo_env prefix_config)
          [''d/a.txt''] (numbering_start prefix_config) [] abort_fs)) \<noteq> []"
    by code_simp
  then obtain r0 where r0: "r0 \<in> set (projr (fst (rename_loop demo_env prefix_config
          (default_backup_dir demo_env prefix_config)
          [''d/a.txt''] (numbering_start prefix_config) [] abort_fs)))"
    by (meson last_in_set)
  then have r1: "renamed_at r0 \<noteq> None \<and> the (new_path r0) = ''d/xa.txt''"
    using r by (simp add: list_all_iff)
  note T = conflict_aborts_without_rollback [OF h1 h2 h3 h4 h5 h6 h7 h8]
  from T r0 r1 have "is_file (snd (rename_loop demo_env prefix_config
                    (default_backup_dir demo_env prefix_config)
                    [''d/a.txt''] (numbering_start prefix_config) [] abort_fs)) ''d/xa.txt''"
    by metis
  then show ?thesis
    using T n unfolding p by simp
qed

section \<open>No log after an abort\<close>

lemma no_new_content_refl: "no_new_content fs fs"
  by (auto simp: no_new_content_def)

lemma no_new_content_trans:
  "no_new_content a b \<Longrightarrow> no_new_content b c \<Longrightarrow> no_new_content a c"
  unfolding no_new_content_def by blast

lemma dirs_only_no_new: "dirs_only fs fs' \<Longrightarrow> no_new_content fs fs'"
  unfolding dirs_only_def no_new_content_def by blast

lemma copy2_no_new: "copy2 t src dst fs = Inr fs' \<Longrightarrow> no_new_content fs fs'"
  by (erule copy2_cases)
     (auto simp: no_new_content_def lookup_put_node split: if_splits)

lemma os_replace_no_new: "os_replace t src dst fs = Inr fs' \<Longrightarrow> no_new_content fs fs'"
  by (erule os_replace_cases)
     (auto simp: no_new_content_def lookup_put_node lookup_remove_node split: if_splits)

lemma process_file_no_new:
  assumes "process_file ev cfg b x c fs = (res, f1)"
  shows "no_new_content fs f1"
proof (cases "build_new_name ev cfg (basename x) c")
  case (Inl e)
  then show ?thesis
    using assms by (auto simp: process_file_def no_new_content_refl)
next
  case (Inr name')
  let ?np = "path_join (directory cfg) name'"
  show ?thesis
  proof (cases "dry_run cfg \<or> abspath (cwd ev) x = abspath (cwd ev) ?np \<or> exists fs ?np")
    case True
    then have "f1 = fs"
      using assms Inr by (auto simp: process_file_def Let_def split: if_splits)
    then show ?thesis by (simp add: no_new_content_refl)
  next
    case False
    show ?thesis
    proof (cases "ensure_directory (now ev) b fs")
      case (Inl e)
      then have "f1 = fs"
        using assms Inr False by (auto simp: process_file_def Let_def)
      then show ?thesis by (simp add: no_new_content_refl)
    next
      case g1: (Inr g1)
      have a: "no_new_content fs g1"
        using ensure_directory_dirs_only [OF g1] by (rule dirs_only_no_new)
      show ?thesis
      proof (cases "copy2 (now ev) x (path_join b (basename x)) g1")
        case (Inl e)
        then have "f1 = g1"
          using assms Inr False g1 by (auto simp: process_file_def Let_def)
        then show ?thesis using a by simp
      next
        case g2: (Inr g2)
        have b: "no_new_content fs g2"
          using a copy2_no_new [OF g2] by (rule no_new_content_trans)
        show ?thesis
        proof (cases "os_replace (now ev) x ?np g2")
          case (Inl e)
          then have "f1 = g2"
            using assms Inr False g1 g2 by (auto simp: process_file_def Let_def)
          then show ?thesis using b by simp
        next
          case g3: (Inr g3)
          then have "f1 = g3"
            using assms Inr False g1 g2 by (auto simp: process_file_def Let_def)
          then show ?thesis
            using b os_replace_no_new [OF g3] by (auto intro: no_new_content_trans)
        qed
      qed
    qed
  qed
qed

lemma rename_loop_no_new:
  "rename_loop ev cfg b files c recs fs = (res, fs') \<Longrightarrow> no_new_content fs fs'"
proof (induction files arbitrary: c recs fs)
  case Nil
  then show ?case by (simp add: no_new_content_refl)
next
  case (Cons x xs)
  obtain r1 f1 where pf: "process_file ev cfg b x c fs = (r1, f1)"
    by (cases "process_file ev cfg b x c fs")
  have k: "no_new_content fs f1"
    by (rule process_file_no_new [OF pf])
  show ?case
  proof (cases r1)
    case (Inl e)
    then have "fs' = f1"
      using Cons.prems pf by simp
    then show ?thesis using k by simp
  next
    case (Inr r)
    then have "rename_loop ev cfg b xs (if numbering cfg then c + 1 else c) (recs @ [r]) f1
        = (res, fs')"
      using Cons.prems pf by simp
    from Cons.IH [OF this] k show ?thesis by (rule no_new_content_trans [rotated])
  qed
qed

lemma load_rename_log_Some:
  "load_rename_log fs p = Inr (Some d) \<Longrightarrow> \<exists>m. lookup fs p = Some (File (Json d) m)"
  unfolding load_rename_log_def
  by (auto split: option.splits node.splits content.splits json_doc.splits if_splits)

lemma undo_rename_success_loads:
  assumes "undo_rename ev d None fs = (Inr u, fs')" and "success u \<or> restored_count u \<noteq> 0"
  shows "\<exists>lf doc. load_rename_log fs lf = Inr (Some doc)"
  using assms unfolding undo_rename_def Let_def
  by (auto split: option.splits sum.splits json_doc.splits list.splits if_splits prod.splits)

text \<open>
  Claim C10. When \<open>rename_files\<close> raises \<open>FileExistsError\<close>, it has written no log: every
  regular file it leaves has the content of a file that was there before the call, so a log
  that \<open>load_rename_log\<close> can load afterwards was there before. In a file system that held
  no JSON document, \<open>undo_rename\<close> then restores nothing, although earlier paths of the
  batch may have been renamed.
\<close>

theorem abort_writes_no_log:
  assumes "rename_files ev cfg fs = (Inl (TargetExists p), fs')"
  shows "no_new_content fs fs'
       \<and> (\<forall>lf doc. load_rename_log fs' lf = Inr (Some doc)
             \<longrightarrow> (\<exists>q m. lookup fs q = Some (File (Json doc) m)))
       \<and> ((\<forall>q doc m. lookup fs q \<noteq> Some (File (Json doc) m))
             \<longrightarrow> (\<forall>ev' u fs''. undo_rename ev' (directory cfg) None fs' = (Inr u, fs'')
                     \<longrightarrow> \<not> success u \<and> restored_count u = 0))"
proof -
  let ?files = "collect_files fs (directory cfg) (extensions cfg)"
  have v: "validate fs cfg = None"
  proof (cases "validate fs cfg")
    case None
    then show ?thesis .
  next
    case (Some e)
    then have "e = TargetExists p"
      using assms by (simp add: rename_files_def)
    then show ?thesis
      using validate_kind [OF Some] by (simp add: kind_of_def)
  qed
  from assms v have "rename_loop ev cfg (default_backup_dir ev cfg) ?files (numbering_start cfg) [] fs
      = (Inl (TargetExists p), fs')"
    unfolding rename_files_def Let_def
    by (auto split: if_splits prod.splits sum.splits)
  then have 1: "no_new_content fs fs'"
    by (rule rename_loop_no_new)
  have 2: "\<exists>q m. lookup fs q = Some (File (Json doc) m)"
    if "load_rename_log fs' lf = Inr (Some doc)" for lf doc
    using load_rename_log_Some [OF that] 1 unfolding no_new_content_def by blast
  have 3: "\<not> success u \<and> restored_count u = 0"
    if n: "\<forall>q doc m. lookup fs q \<noteq> Some (File (Json doc) m)"
      and u: "undo_rename ev' (directory cfg) None fs' = (Inr u, fs'')" for ev' u fs''
  proof (rule ccontr)
    assume "\<not> (\<not> success u \<and> restored_count u = 0)"
    then have "success u \<or> restored_count u \<noteq> 0" by auto
    from undo_rename_success_loads [OF u this] obtain lf doc where
      "load_rename_log fs' lf = Inr (Some doc)" by blast
    from 2 [OF this] n show False by blast
  qed
  show ?thesis using 1 2 3 by blast
qed


theorem abort_writes_no_log_witness:
  "rename_files demo_env prefix_config abort_fs
     = (Inl (TargetExists ''d/xb.txt''), snd (rename_files demo_env prefix_config abort_fs))
   \<and> is_file (snd (rename_files demo_env prefix_config abort_fs)) ''d/xa.txt''
   \<and> \<not> exists (snd (rename_files demo_env prefix_config abort_fs)) ''d/a.txt''
   \<and> error_message (projr (fst (undo_rename demo_env ''d'' None
          (snd (rename_files demo_env prefix_config abort_fs)))))
       = ''No rename log files found in directory.''
   \<and> \<not> success (projr (fst (undo_rename demo_env ''d'' None
          (snd (rename_files demo_env prefix_config abort_fs)))))
   \<and> restored_count (projr (fst (undo_rename demo_env ''d'' None
          (snd (rename_files demo_env prefix_config abort_fs))))) = 0"
proof -
  let ?F = "snd (rename_files demo_env prefix_config abort_fs)"
  have h: "rename_files demo_env prefix_config abort_fs = (Inl (TargetExists ''d/xb.txt''), ?F)"
    by code_simp
  have f: "is_file ?F ''d/xa.txt''"
    by code_simp
  have g: "\<not> exists ?F ''d/a.txt''"
    by code_simp
  have m: "error_message (projr (fst (undo_rename demo_env ''d'' None ?F)))
       = ''No rename log files found in directory.''"
    by code_simp
  have n: "\<forall>q doc m. lookup abort_fs q \<noteq> Some (File (Json doc) m)"
    by (auto simp: abort_fs_def lookup_def split: if_splits)
  have d: "directory prefix_config = ''d''"
    by (simp add: prefix_config_def BulkRenameConfig_def)
  have "\<not> isl (fst (undo_rename demo_env ''d'' None ?F))"
    by code_simp
  then obtain u fs'' where u: "undo_rename demo_env ''d'' None ?F = (Inr u, fs'')"
    by (cases "undo_rename demo_env ''d'' None ?F";
        cases "fst (undo_rename demo_env ''d'' None ?F)") auto
  from abort_writes_no_log [OF h] n u have "\<not> success u \<and> restored_count u = 0"
    unfolding d by blast
  then show ?thesis
    using h f g m u by simp
qed

section \<open>A substitution that empties the stem\<close>

text \<open>
  Claim C3 says that a substitution that empties the stem of some file makes the operation
  fail with a \<open>ConfigError\<close>. The names are built inside the loop that renames, so a path
  that sorts earlier can raise first: here \<open>ca.txt\<close> meets the existing \<open>a.txt\<close> and the
  call raises \<open>FileExistsError\<close> before it comes to \<open>cc.txt\<close>.
\<close>

theorem empty_stem_counterexample:
  "validate delete_c_fs delete_c_config = None
   \<and> ''d/cc.txt'' \<in> set (collect_files delete_c_fs (directory delete_c_config)
                           (extensions delete_c_config))
   \<and> re_sub delete_c_env (the (regex_pattern delete_c_config))
        (the (regex_replacement delete_c_config)) (fst (splitext ''cc.txt'')) = Some []
   \<and> rename_files delete_c_env delete_c_config delete_c_fs
       = (Inl (TargetExists ''d/a.txt''), delete_c_fs)
   \<and> kind_of (TargetExists ''d/a.txt'') \<noteq> ConfigError"
  by code_simp

lemma build_new_name_empty:
  assumes "truthy (regex_pattern cfg)" and "truthy (regex_replacement cfg)"
    and "re_sub ev (the (regex_pattern cfg)) (the (regex_replacement cfg)) (fst (splitext name))
         = Some []"
  shows "build_new_name ev cfg name c = Inl (EmptyFileName name)"
  using assms by (simp add: build_new_name_base_stem base_stem_def Let_def)

lemma process_file_build_error:
  "build_new_name ev cfg (basename x) c = Inl e \<Longrightarrow> process_file ev cfg b x c fs = (Inl e, fs)"
  by (simp add: process_file_def)

lemma rename_loop_fails:
  assumes "x \<in> set files"
    and "\<And>c. build_new_name ev cfg (basename x) c = Inl (EmptyFileName (basename x))"
  shows "\<exists>e. fst (rename_loop ev cfg b files c recs fs) = Inl e"
  using assms(1)
proof (induction files arbitrary: c recs fs)
  case Nil
  then show ?case by simp
next
  case (Cons y ys)
  obtain r1 f1 where pf: "process_file ev cfg b y c fs = (r1, f1)"
    by (cases "process_file ev cfg b y c fs")
  show ?case
  proof (cases r1)
    case (Inl e)
    then show ?thesis using pf by simp
  next
    case (Inr r)
    have "y \<noteq> x"
    proof
      assume "y = x"
      then have "process_file ev cfg b y c fs = (Inl (EmptyFileName (basename x)), fs)"
        using process_file_build_error [OF assms(2), of b c fs] by simp
      then show False using pf Inr by simp
    qed
    then have "x \<in> set ys" using Cons.prems by simp
    from Cons.IH [OF this] show ?thesis using pf Inr by simp
  qed
qed

text \<open>
  Claim C3, amended. Let the substitution empty the stem of a collected path \<open>x\<close>. Then
  \<open>rename_files\<close> does not return; in a dry run what it raises is of the kind
  \<open>ConfigError\<close>; and whenever the paths before \<open>x\<close> are processed without an error, it
  raises the \<open>ValueError\<close> for the empty name of \<open>x\<close>, in the state those paths left. A
  pattern with an empty replacement never reaches the substitution: validation rejects the
  configuration, with a \<open>ConfigError\<close> when the directory is one.
\<close>

theorem empty_stem_fails:
  assumes "validate fs cfg = None"
    and "collect_files fs (directory cfg) (extensions cfg) = before @ x # rest"
    and "truthy (regex_pattern cfg)" and "truthy (regex_replacement cfg)"
    and "re_sub ev (the (regex_pattern cfg)) (the (regex_replacement cfg))
           (fst (splitext (basename x))) = Some []"
  shows "(\<exists>e. fst (rename_files ev cfg fs) = Inl e \<and> (dry_run cfg \<longrightarrow> kind_of e = ConfigError))
       \<and> (\<forall>rs fs1. rename_loop ev cfg (default_backup_dir ev cfg) before (numbering_start cfg)
                      [] fs = (Inr rs, fs1)
             \<longrightarrow> rename_files ev cfg fs = (Inl (EmptyFileName (basename x)), fs1)
                 \<and> kind_of (EmptyFileName (basename x)) = ConfigError)
       \<and> (\<forall>cfg' fs'. truthy (regex_pattern cfg') \<and> \<not> truthy (regex_replacement cfg')
             \<longrightarrow> (\<exists>e. rename_files ev cfg' fs' = (Inl e, fs')
                       \<and> (is_dir fs' (directory cfg') \<longrightarrow> kind_of e = ConfigError)))"
proof -
  let ?files = "collect_files fs (directory cfg) (extensions cfg)"
  let ?b = "default_backup_dir ev cfg"
  have bn: "build_new_name ev cfg (basename x) c = Inl (EmptyFileName (basename x))" for c
    by (rule build_new_name_empty [OF assms(3,4,5)])
  have ne: "?files \<noteq> []"
    using assms(2) by simp
  have "x \<in> set ?files"
    using assms(2) by simp
  from rename_loop_fails [OF this bn]
  obtain e where e: "fst (rename_loop ev cfg ?b ?files (numbering_start cfg) [] fs) = Inl e"
    by blast
  obtain f1 where l: "rename_loop ev cfg ?b ?files (numbering_start cfg) [] fs = (Inl e, f1)"
    using e by (cases "rename_loop ev cfg ?b ?files (numbering_start cfg) [] fs") simp
  have r: "fst (rename_files ev cfg fs) = Inl e"
    using assms(1) ne l by (simp add: rename_files_def)
  have k: "kind_of e = ConfigError" if "dry_run cfg"
    by (rule rename_loop_dry_kind [OF that e])
  have 1: "\<exists>e. fst (rename_files ev cfg fs) = Inl e \<and> (dry_run cfg \<longrightarrow> kind_of e = ConfigError)"
    using r k by blast
  have 2: "rename_files ev cfg fs = (Inl (EmptyFileName (basename x)), fs1)
         \<and> kind_of (EmptyFileName (basename x)) = ConfigError"
    if run: "rename_loop ev cfg ?b before (numbering_start cfg) [] fs = (Inr rs, fs1)" for rs fs1
  proof -
    let ?c = "if numbering cfg then numbering_start cfg + int (length before)
              else numbering_start cfg"
    have "rename_loop ev cfg ?b (x # rest) ?c [] fs1 = (Inl (EmptyFileName (basename x)), fs1)"
      unfolding rename_loop_Cons process_file_build_error [OF bn] by simp
    then have "rename_loop ev cfg ?b (before @ x # rest) (numbering_start cfg) [] fs
        = (Inl (EmptyFileName (basename x)), fs1)"
      unfolding rename_loop_append run by simp
    then show ?thesis
      using assms(1,2) by (simp add: rename_files_def kind_of_def)
  qed
  have 3: "\<exists>e. rename_files ev cfg' fs' = (Inl e, fs')
             \<and> (is_dir fs' (directory cfg') \<longrightarrow> kind_of e = ConfigError)"
    if "truthy (regex_pattern cfg') \<and> \<not> truthy (regex_replacement cfg')" for cfg' fs'
  proof -
    have "validate fs' cfg' \<noteq> None"
      using that by (simp add: validate_def)
    then obtain e where v: "validate fs' cfg' = Some e"
      by auto
    have "kind_of e = ConfigError" if "is_dir fs' (directory cfg')"
      using v that by (auto simp: validate_def kind_of_def is_dir_iff exists_def split: if_splits)
    then show ?thesis
      using v by (simp add: rename_files_def)
  qed
  show ?thesis using 1 2 3 by blast
qed

theorem empty_stem_fails_witness:
  "rename_files delete_c_env (delete_c_config\<lparr>dry_run := True\<rparr>) delete_c_fs
     = (Inl (EmptyFileName ''cc.txt''), delete_c_fs)
   \<and> kind_of (EmptyFileName ''cc.txt'') = ConfigError
   \<and> (\<exists>e. rename_files delete_c_env (plain_config\<lparr>regex_pattern := Some ''.*''\<rparr>) demo_fs
            = (Inl e, demo_fs) \<and> kind_of e = ConfigError)"
proof -
  let ?cfg = "delete_c_config\<lparr>dry_run := True\<rparr>"
  have h1: "validate delete_c_fs ?cfg = None"
    by code_simp
  have h2: "collect_files delete_c_fs (directory ?cfg) (extensions ?cfg)
      = [''d/a.txt'', ''d/ca.txt''] @ ''d/cc.txt'' # []"
    by code_simp
  have h3: "truthy (regex_pattern ?cfg)"
    by code_simp
  have h4: "truthy (regex_replacement ?cfg)"
    by code_simp
  have h5: "re_sub delete_c_env (the (regex_pattern ?cfg)) (the (regex_replacement ?cfg))
           (fst (splitext (basename ''d/cc.txt''))) = Some []"
    by code_simp
  note T = empty_stem_fails [OF h1 h2 h3 h4 h5]
  have run: "rename_loop delete_c_env ?cfg (default_backup_dir delete_c_env ?cfg)
        [''d/a.txt'', ''d/ca.txt''] (numbering_start ?cfg) [] delete_c_fs
      = (Inr (projr (fst (rename_loop delete_c_env ?cfg (default_backup_dir delete_c_env ?cfg)
                [''d/a.txt'', ''d/ca.txt''] (numbering_start ?cfg) [] delete_c_fs))),
         delete_c_fs)"
    by code_simp
  have b: "basename ''d/cc.txt'' = ''cc.txt''"
    by code_simp
  have a: "rename_files delete_c_env ?cfg delete_c_fs
     = (Inl (EmptyFileName ''cc.txt''), delete_c_fs)
     \<and> kind_of (EmptyFileName ''cc.txt'') = ConfigError"
    using T run unfolding b by blast
  have p: "truthy (regex_pattern (plain_config\<lparr>regex_pattern := Some ''.*''\<rparr>))
         \<and> \<not> truthy (regex_replacement (plain_config\<lparr>regex_pattern := Some ''.*''\<rparr>))"
    by code_simp
  have d: "is_dir demo_fs (directory (plain_config\<lparr>regex_pattern := Some ''.*''\<rparr>))"
    by code_simp
  have "\<exists>e. rename_files delete_c_env (plain_config\<lparr>regex_pattern := Some ''.*''\<rparr>) demo_fs
            = (Inl e, demo_fs) \<and> kind_of e = ConfigError"
    using T p d by blast
  then show ?thesis using a by blast
qed


section \<open>When \<open>undo_rename\<close> gives up\<close>


text \<open>
  Other logs are not reported either, because the exception leaves \<open>undo_rename\<close>: a log
  path that is a directory, a log that is not UTF-8, a JSON document that is not an object,
  a \<open>renamed_files\<close> that is a number, and an element of \<open>renamed_files\<close> that is not an
  object. In the last case the records before that element have been restored.
\<close>

lemma undo_raises_on_directory_log:
  "undo_rename demo_env ''d'' None [(''d'', Dir 1), (''d/rename_log_1.json'', Dir 2)]
     = (Inl IsADirectoryError, [(''d'', Dir 1), (''d/rename_log_1.json'', Dir 2)])"
  by code_simp

lemma undo_raises_on_bytes:
  "undo_rename demo_env ''d'' None
       [(''d'', Dir 1), (''d/rename_log_1.json'', File (Text [CHR 0xFF]) 2)]
     = (Inl UnicodeDecodeError,
        [(''d'', Dir 1), (''d/rename_log_1.json'', File (Text [CHR 0xFF]) 2)])
   \<and> \<not> log_unusable demo_env
         [(''d'', Dir 1), (''d/rename_log_1.json'', File (Text [CHR 0xFF]) 2)] ''d'' None"
  by code_simp

lemma undo_returns_on_text:
  "fst (undo_rename demo_env ''d'' None
       [(''d'', Dir 1), (''d/rename_log_1.json'', File (Text ''hello'') 2)])
     = Inr \<lparr> success = False, restored_count = 0, skipped_count = 0,
             error_message = ''Failed to read log file: d/rename_log_1.json'',
             u_log_file = ''d/rename_log_1.json'', u_backup_dir = [], details = [] \<rparr>"
  by code_simp

lemma undo_raises_on_json_array:
  "undo_rename demo_env ''d'' None
       [(''d'', Dir 1), (''d/rename_log_1.json'', File (Json JsonOther) 2)]
     = (Inl AttributeError,
        [(''d'', Dir 1), (''d/rename_log_1.json'', File (Json JsonOther) 2)])"
  by code_simp

lemma undo_raises_on_number:
  "undo_rename demo_env ''d'' None
       [(''d'', Dir 1), (''d/rename_log_1.json'', File (Json (JsonLog TruthyNumber None)) 2)]
     = (Inl TypeError,
        [(''d'', Dir 1), (''d/rename_log_1.json'', File (Json (JsonLog TruthyNumber None)) 2)])"
  by code_simp

lemma undo_raises_under_file:
  "undo_rename demo_env ''d'' (Some ''d/a.txt/log.json'') demo_fs
     = (Inl NotADirectoryError, demo_fs)"
  by code_simp

lemma undo_raises_on_later_element:
  "fst (undo_rename demo_env ''d'' None
       [(''d'', Dir 100), (''d/backup_100'', Dir 100),
        (''d/backup_100/a.txt'', File (Text ''A'') 2),
        (''d/xa.txt'', File (Text ''A'') 2),
        (''d/rename_log_100.json'',
           File (Json (JsonLog
                   (Entries [Entry \<lparr> original_name = Some ''a.txt'', new_name = Some ''xa.txt'',
                                     original_path = Some ''d/a.txt'',
                                     new_path = Some ''d/xa.txt'', skipped = None,
                                     renamed_at = Some ''2026-01-01 00:00:00'' \<rparr>,
                             NotAnObject])
                   None)) 100)])
     = Inl AttributeError
   \<and> lookup (snd (undo_rename demo_env ''d'' None
       [(''d'', Dir 100), (''d/backup_100'', Dir 100),
        (''d/backup_100/a.txt'', File (Text ''A'') 2),
        (''d/xa.txt'', File (Text ''A'') 2),
        (''d/rename_log_100.json'',
           File (Json (JsonLog
                   (Entries [Entry \<lparr> original_name = Some ''a.txt'', new_name = Some ''xa.txt'',
                                     original_path = Some ''d/a.txt'',
                                     new_path = Some ''d/xa.txt'', skipped = None,
                                     renamed_at = Some ''2026-01-01 00:00:00'' \<rparr>,
                             NotAnObject])
                   None)) 100)])) ''d/a.txt''
     = Some (File (Text ''A'') 2)"
  by code_simp






section \<open>Paths in a plain directory\<close>

definition plain_dir :: "string \<Rightarrow> bool" where
  \<comment> \<open>a directory path that is not empty and does not end in a slash\<close>
  "plain_dir d = (d \<noteq> [] \<and> last d \<noteq> CHR ''/'')"

definition plain_name :: "string \<Rightarrow> bool" where
  \<comment> \<open>a file name: not empty, no slash\<close>
  "plain_name n = (n \<noteq> [] \<and> CHR ''/'' \<notin> set n)"

lemma path_join_plain:
  assumes "plain_dir d" and "plain_name n"
  shows "path_join d n = d @ ''/'' @ n"
proof -
  have "\<not> startswith n ''/''"
    using assms(2) by (cases n) (auto simp: startswith_def plain_name_def)
  moreover have "\<not> endswith d ''/''"
  proof
    assume "endswith d ''/''"
    then have "drop (length d - 1) d = ''/''"
      by (simp add: endswith_def)
    moreover have "drop (length d - 1) d = [last d]"
      using assms(1) by (metis plain_dir_def append_butlast_last_id append_eq_conv_conj
          length_butlast)
    ultimately show False
      using assms(1) by (simp add: plain_dir_def)
  qed
  ultimately show ?thesis
    using assms(1) by (simp add: path_join_def plain_dir_def)
qed

lemma after_last_append:
  assumes "c \<notin> set n"
  shows "after_last c (a @ c # n) = n"
proof -
  have "rev (a @ c # n) = rev n @ c # rev a" by simp
  moreover have "takeWhile (\<lambda>x. x \<noteq> c) (rev n @ c # rev a) = rev n"
    using assms by (auto simp: takeWhile_tail takeWhile_eq_all_conv)
  ultimately show ?thesis
    by (simp add: after_last_def)
qed

lemma basename_append:
  "CHR ''/'' \<notin> set n \<Longrightarrow> basename (a @ ''/'' @ n) = n"
  using after_last_append [of "CHR ''/''" n a] by (simp add: basename_def)

lemma dirname_append:
  assumes "plain_dir d" and "CHR ''/'' \<notin> set n"
  shows "dirname (d @ ''/'' @ n) = d"
proof -
  have b: "basename (d @ ''/'' @ n) = n"
    by (rule basename_append [OF assms(2)])
  have h: "take (length (d @ ''/'' @ n) - length n) (d @ ''/'' @ n) = d @ ''/''"
    by simp
  have ne: "d @ ''/'' \<noteq> replicate (length (d @ ''/'')) CHR ''/''"
  proof
    assume "d @ ''/'' = replicate (length (d @ ''/'')) CHR ''/''"
    then have "set (d @ ''/'') \<subseteq> {CHR ''/''}"
      by (metis set_replicate_conv_if empty_subsetI subset_refl)
    moreover have "last d \<in> set d"
      using assms(1) by (simp add: plain_dir_def)
    ultimately have "last d = CHR ''/''"
      by auto
    then show False
      using assms(1) by (simp add: plain_dir_def)
  qed
  have "dropWhile (\<lambda>x. x = CHR ''/'') (rev d) = rev d"
    using assms(1) by (cases "rev d") (auto simp: plain_dir_def last_rev [symmetric] hd_rev)
  then have r: "rstrip CHR ''/'' (d @ ''/'') = d"
    by (simp add: rstrip_def)
  show ?thesis
    unfolding dirname_def b h Let_def using ne r by simp
qed

lemma basename_no_slash: "CHR ''/'' \<notin> set (basename p)"
proof -
  have "\<forall>x \<in> set (takeWhile (\<lambda>x. x \<noteq> CHR ''/'') (rev p)). x \<noteq> CHR ''/''"
    by (auto dest: set_takeWhileD)
  then show ?thesis
    by (auto simp: basename_def after_last_def)
qed

lemma digit_char_no_slash: "k < 10 \<Longrightarrow> digit_char k \<noteq> CHR ''/''"
proof -
  assume "k < 10"
  then have "digit_char k \<in> set ''0123456789''"
    unfolding digit_char_def by (intro nth_mem) simp
  then show ?thesis by auto
qed

lemma str_nat_no_slash: "CHR ''/'' \<notin> set (str_nat n)"
proof (induction n rule: str_nat.induct)
  case (1 n)
  show ?case
  proof (cases "n < 10")
    case True
    then show ?thesis
      using digit_char_no_slash [of n] by (subst str_nat.simps) simp
  next
    case False
    then have "n mod 10 < 10" by simp
    then show ?thesis
      using 1 False digit_char_no_slash [of "n mod 10"] by (subst str_nat.simps) simp
  qed
qed

lemma plain_backup_name: "plain_name (''backup_'' @ str_nat t)"
  using str_nat_no_slash [of t] by (simp add: plain_name_def)

lemma plain_log_name: "plain_name (''rename_log_'' @ str_nat t @ ''.json'')"
  using str_nat_no_slash [of t] by (simp add: plain_name_def)

lemma child_neq_grandchild:
  assumes "CHR ''/'' \<notin> set n"
  shows "d @ ''/'' @ n \<noteq> (d @ ''/'' @ b) @ ''/'' @ k"
proof
  assume "d @ ''/'' @ n = (d @ ''/'' @ b) @ ''/'' @ k"
  then have "n = b @ ''/'' @ k" by simp
  then show False using assms by simp
qed

lemma child_neq_dir: "d @ ''/'' @ n \<noteq> d"
  by simp

lemma collect_files_shape:
  assumes "x \<in> set (collect_files fs d e)"
  shows "basename x \<noteq> [] \<and> x = path_join d (basename x)"
  using assms unfolding collect_files_def scandir_paths by auto

lemma plain_dir_child:
  assumes "plain_name n"
  shows "plain_dir (d @ ''/'' @ n)"
proof -
  have n: "n \<noteq> []" and s: "CHR ''/'' \<notin> set n"
    using assms by (simp_all add: plain_name_def)
  have "last n \<in> set n"
    using n by (rule last_in_set)
  then have "last n \<noteq> CHR ''/''"
    using s by auto
  then show ?thesis
    using n by (simp add: plain_dir_def)
qed

lemma plain_name_basename: "basename x \<noteq> [] \<Longrightarrow> plain_name (basename x)"
  using basename_no_slash [of x] by (simp add: plain_name_def)

lemma exists_iff: "exists fs p = (\<exists>n. lookup fs p = Some n)"
  by (auto simp: exists_def)

lemma mkdir_child:
  assumes "plain_dir d" and "plain_name bn" and "is_dir fs d"
    and "\<not> exists fs (d @ ''/'' @ bn)"
  shows "makedirs t (d @ ''/'' @ bn) fs = Inr (put_node t (d @ ''/'' @ bn) (Dir t) fs)"
proof -
  let ?B = "d @ ''/'' @ bn"
  have s: "CHR ''/'' \<notin> set bn" and ne: "bn \<noteq> []"
    using assms(2) by (simp_all add: plain_name_def)
  have b: "basename ?B = bn"
    by (rule basename_append [OF s])
  have dn: "dirname ?B = d"
    by (rule dirname_append [OF assms(1) s])
  have h: "makedirs_head ?B = d" and tl: "makedirs_tail ?B = bn"
    using b dn ne by (simp_all add: makedirs_head_def makedirs_tail_def)
  have ex: "exists fs d"
    using assms(3) by (auto simp: is_dir_iff exists_iff)
  have "makedirs t ?B fs = mkdir t ?B fs"
    by (subst makedirs.simps) (simp only: h tl ex simp_thms if_False)
  then show ?thesis
    using assms(3,4) dn by (simp add: mkdir_def parent_ok_def)
qed

lemma copy2_plain:
  assumes "copy2 t src dst fs = Inr fs'" and "\<not> is_dir fs dst"
  obtains c m where "lookup fs src = Some (File c m)" and "dst \<noteq> src"
    and "parent_ok fs dst" and "fs' = put_node t dst (File c m) fs"
  using assms unfolding copy2_def Let_def
  by (auto split: option.splits node.splits if_splits)

lemma os_replace_plain:
  assumes "os_replace t src dst fs = Inr fs'" and "src \<noteq> dst"
  obtains c m where "lookup fs src = Some (File c m)" and "\<not> is_dir fs dst"
    and "parent_ok fs dst" and "fs' = put_node t dst (File c m) (remove_node t src fs)"
  using assms unfolding os_replace_def
  by (auto split: option.splits node.splits if_splits)

lemma process_file_renamedE:
  assumes "process_file ev cfg B x c fs = (Inr r, f1)" and "skipped r = None"
    and "\<not> dry_run cfg"
  obtains name' g1 g2 where
    "build_new_name ev cfg (basename x) c = Inr name'"
    and "new_name r = Some name'"
    and "new_path r = Some (path_join (directory cfg) name')"
    and "original_path r = Some x" and "original_name r = Some (basename x)"
    and "renamed_at r \<noteq> None"
    and "abspath (cwd ev) x \<noteq> abspath (cwd ev) (path_join (directory cfg) name')"
    and "\<not> exists fs (path_join (directory cfg) name')"
    and "ensure_directory (now ev) B fs = Inr g1"
    and "copy2 (now ev) x (path_join B (basename x)) g1 = Inr g2"
    and "os_replace (now ev) x (path_join (directory cfg) name') g2 = Inr f1"
  using assms unfolding process_file_def Let_def
  by (auto split: sum.splits if_splits)

lemma process_file_skippedE:
  assumes "process_file ev cfg B x c fs = (Inr r, f1)" and "skipped r \<noteq> None"
  obtains name' where "f1 = fs"
    and "new_name r = Some name'" and "original_path r = Some x"
    and "original_name r = Some (basename x)"
    and "new_path r = Some (path_join (directory cfg) name')"
    and "skipped r = Some ''Name unchanged.''" and "renamed_at r = None"
  using assms unfolding process_file_def Let_def
  by (auto split: sum.splits if_splits)

section \<open>One renaming step, exactly\<close>

lemma rename_step_effect:
  assumes pf: "process_file ev cfg B x c fs = (Inr r, f1)" and rn: "skipped r = None"
    and nd: "\<not> dry_run cfg" and pd: "plain_dir d" and d: "d = directory cfg"
    and B: "B = d @ ''/'' @ bn" and bn: "plain_name bn"
    and x: "x = d @ ''/'' @ basename x" and xb: "basename x \<noteq> []"
    and dd: "is_dir fs d"
    and nbk: "\<not> is_dir fs (B @ ''/'' @ basename x)"
    and pn: "plain_name (the (new_name r))"
  shows "\<exists>cm m mB.
      lookup fs x = Some (File cm m)
    \<and> new_path r = Some (d @ ''/'' @ the (new_name r))
    \<and> original_path r = Some x \<and> original_name r = Some (basename x)
    \<and> renamed_at r \<noteq> None
    \<and> \<not> exists fs (d @ ''/'' @ the (new_name r))
    \<and> d @ ''/'' @ the (new_name r) \<noteq> x \<and> d @ ''/'' @ the (new_name r) \<noteq> B \<and> x \<noteq> B
    \<and> \<not> is_file fs B
    \<and> (\<forall>p. lookup f1 p =
           (if p = d @ ''/'' @ the (new_name r) then Some (File cm m)
            else if p = x then None
            else if p = B @ ''/'' @ basename x then Some (File cm m)
            else if p = B then Some (Dir mB)
            else if p = d then Some (Dir (now ev))
            else lookup fs p))
    \<and> (lookup fs B = None \<or> lookup fs B = Some (Dir (now ev)) \<longrightarrow> mB = now ev)"
proof -
  let ?T = "now ev"
  from pf rn nd obtain name' g1 g2 where
    nn: "new_name r = Some name'" and
    np0: "new_path r = Some (path_join (directory cfg) name')" and
    op: "original_path r = Some x" and on: "original_name r = Some (basename x)" and
    ra: "renamed_at r \<noteq> None" and
    ab: "abspath (cwd ev) x \<noteq> abspath (cwd ev) (path_join (directory cfg) name')" and
    nex0: "\<not> exists fs (path_join (directory cfg) name')" and
    ed: "ensure_directory ?T B fs = Inr g1" and
    cp: "copy2 ?T x (path_join B (basename x)) g1 = Inr g2" and
    rp: "os_replace ?T x (path_join (directory cfg) name') g2 = Inr f1"
    by (rule process_file_renamedE)
  let ?np = "d @ ''/'' @ name'"
  let ?bk = "B @ ''/'' @ basename x"
  have pn': "plain_name name'"
    using pn nn by simp
  have pj: "path_join (directory cfg) name' = ?np"
    using path_join_plain [OF pd pn'] d by simp
  have pB: "plain_dir B"
    unfolding B by (rule plain_dir_child [OF bn])
  have pb: "plain_name (basename x)"
    by (rule plain_name_basename [OF xb])
  have pjb: "path_join B (basename x) = ?bk"
    by (rule path_join_plain [OF pB pb])
  have sl: "CHR ''/'' \<notin> set bn" "CHR ''/'' \<notin> set name'" "CHR ''/'' \<notin> set (basename x)"
    using bn pn' pb by (simp_all add: plain_name_def)
  have dnB: "dirname B = d"
    unfolding B by (rule dirname_append [OF pd sl(1)])
  have dnbk: "dirname ?bk = B"
    by (rule dirname_append [OF pB sl(3)])
  have dnx: "dirname x = d"
    using dirname_append [OF pd sl(3)] x by simp
  have dnnp: "dirname ?np = d"
    by (rule dirname_append [OF pd sl(2)])
  have xnp: "x \<noteq> ?np"
    using ab pj by auto
  have nex: "\<not> exists fs ?np"
    using nex0 pj by simp
  have neq: "?bk \<noteq> B" "?bk \<noteq> d" "B \<noteq> d" "x \<noteq> d" "?np \<noteq> d" "?np \<noteq> ?bk" "x \<noteq> ?bk"
  proof -
    show "?bk \<noteq> B" by simp
    show "?bk \<noteq> d" unfolding B by simp
    show "B \<noteq> d" unfolding B by simp
    show "x \<noteq> d" using x child_neq_dir [of d "basename x"] by metis
    show "?np \<noteq> d" by simp
    show "?np \<noteq> ?bk" unfolding B by (rule child_neq_grandchild [OF sl(2)])
    show "x \<noteq> ?bk"
      using child_neq_grandchild [OF sl(3), of d bn "basename x"] x unfolding B by metis
  qed
  have lg1: "lookup g1 p =
      (if \<not> exists fs B \<and> (p = B \<or> p = d) then Some (Dir ?T) else lookup fs p)" for p
  proof (cases "exists fs B")
    case True
    then have "g1 = fs"
      using ed by (simp add: ensure_directory_def)
    then show ?thesis using True by simp
  next
    case False
    then have "g1 = put_node ?T B (Dir ?T) fs"
      using ed mkdir_child [OF pd bn dd, of ?T] unfolding B
      by (simp add: ensure_directory_def)
    then show ?thesis
      using False dd dnB by (auto simp: lookup_put_node)
  qed
  have nd1: "\<not> is_dir g1 ?bk"
    using nbk neq(1,2) by (simp add: is_dir_iff lg1)
  from copy2_plain [OF cp [unfolded pjb] nd1] obtain cm m where
    sx: "lookup g1 x = Some (File cm m)" and
    pok: "parent_ok g1 ?bk" and
    g2: "g2 = put_node ?T ?bk (File cm m) g1"
    by blast
  have dB1: "is_dir g1 B"
    using pok dnbk pB by (auto simp: parent_ok_def plain_dir_def)
  then obtain m1 where lB1: "lookup g1 B = Some (Dir m1)"
    by (auto simp: is_dir_iff)
  have xB: "x \<noteq> B"
    using sx lB1 by auto
  have fx: "lookup fs x = Some (File cm m)"
    using sx xB neq(4) by (simp add: lg1)
  have nfB: "\<not> is_file fs B"
  proof (cases "exists fs B")
    case True
    then show ?thesis
      using lB1 by (auto simp: lg1 is_file_iff)
  next
    case False
    then show ?thesis
      by (auto simp: is_file_iff exists_iff)
  qed
  define mB where "mB = (if \<not> exists g1 ?bk then ?T else m1)"
  have lg2: "lookup g2 p =
      (if p = ?bk then Some (File cm m)
       else if p = B then Some (Dir mB)
       else lookup g1 p)" for p
    unfolding g2 mB_def using dB1 lB1 dnbk by (auto simp: lookup_put_node)
  have sx2: "lookup g2 x = Some (File cm m)"
    using sx xB neq(7) by (simp add: lg2)
  from os_replace_plain [OF rp [unfolded pj] xnp] obtain c' m' where
    sx2': "lookup g2 x = Some (File c' m')" and
    ndnp: "\<not> is_dir g2 ?np" and
    f1: "f1 = put_node ?T ?np (File c' m') (remove_node ?T x g2)"
    by blast
  have cm: "c' = cm" "m' = m"
    using sx2 sx2' by simp_all
  have npB: "?np \<noteq> B"
    using ndnp by (auto simp: is_dir_iff lg2)
  have dd2: "is_dir g2 d"
    using dd neq(2,3) by (auto simp: is_dir_iff lg2 lg1)
  have lf1: "lookup f1 p =
           (if p = ?np then Some (File cm m)
            else if p = x then None
            else if p = ?bk then Some (File cm m)
            else if p = B then Some (Dir mB)
            else if p = d then Some (Dir ?T)
            else lookup fs p)" for p
    unfolding f1 cm
    using dd2 dnx dnnp neq xnp npB xB dd
    by (auto simp: lookup_put_node lookup_remove_node lg2 lg1 is_dir_iff exists_iff)
  have mBT: "mB = ?T" if "lookup fs B = None \<or> lookup fs B = Some (Dir ?T)"
  proof (cases "exists fs B")
    case False
    then have "lookup g1 B = Some (Dir ?T)"
      by (simp add: lg1)
    then show ?thesis
      using lB1 by (simp add: mB_def)
  next
    case True
    then have "lookup g1 B = Some (Dir ?T)"
      using that by (auto simp: lg1 exists_iff)
    then show ?thesis
      using lB1 by (simp add: mB_def)
  qed
  show ?thesis
    using fx np0 pj op on ra nex xnp npB xB nfB lf1 mBT nn
    by (intro exI [of _ cm] exI [of _ m] exI [of _ mB]) (simp del: append.simps)
qed

definition ready :: "string \<Rightarrow> string \<Rightarrow> string list \<Rightarrow> filesys \<Rightarrow> bool" where
  \<comment> \<open>what the loop needs of the paths still to come: they are distinct regular files of
      the directory \<open>d\<close>, and no directory sits where a backup copy is to go\<close>
  "ready d B files g =
     (is_dir g d \<and> distinct files
      \<and> (\<forall>x \<in> set files. x = d @ ''/'' @ basename x \<and> basename x \<noteq> []
            \<and> is_file g x \<and> \<not> is_dir g (B @ ''/'' @ basename x)))"

definition setting :: "config \<Rightarrow> string \<Rightarrow> string \<Rightarrow> bool" where
  \<comment> \<open>a run that is not a dry run, in a plain directory \<open>d\<close>, with the backup directory
      \<open>B\<close> a child of \<open>d\<close>\<close>
  "setting cfg d B =
     (\<not> dry_run cfg \<and> plain_dir d \<and> d = directory cfg
      \<and> (\<exists>bn. plain_name bn \<and> B = d @ ''/'' @ bn))"

lemma child_inj: "d @ ''/'' @ a = d @ ''/'' @ b \<Longrightarrow> a = b"
  by simp

lemma step_effect:
  assumes "setting cfg d B" and "ready d B (x # xs) g0"
    and "process_file ev cfg B x c g0 = (Inr r, f1)" and "skipped r = None"
    and "plain_name (the (new_name r))"
  shows "\<exists>cm m mB.
      lookup g0 x = Some (File cm m)
    \<and> new_path r = Some (d @ ''/'' @ the (new_name r))
    \<and> original_path r = Some x \<and> original_name r = Some (basename x)
    \<and> renamed_at r \<noteq> None
    \<and> \<not> exists g0 (d @ ''/'' @ the (new_name r))
    \<and> d @ ''/'' @ the (new_name r) \<noteq> x \<and> d @ ''/'' @ the (new_name r) \<noteq> B \<and> x \<noteq> B
    \<and> \<not> is_file g0 B
    \<and> (\<forall>p. lookup f1 p =
           (if p = d @ ''/'' @ the (new_name r) then Some (File cm m)
            else if p = x then None
            else if p = B @ ''/'' @ basename x then Some (File cm m)
            else if p = B then Some (Dir mB)
            else if p = d then Some (Dir (now ev))
            else lookup g0 p))
    \<and> (lookup g0 B = None \<or> lookup g0 B = Some (Dir (now ev)) \<longrightarrow> mB = now ev)"
proof -
  from assms(1) obtain bn where
    nd: "\<not> dry_run cfg" and pd: "plain_dir d" and d: "d = directory cfg" and
    bn: "plain_name bn" and B: "B = d @ ''/'' @ bn"
    by (auto simp: setting_def)
  from assms(2) have
    x: "x = d @ ''/'' @ basename x" and xb: "basename x \<noteq> []" and dd: "is_dir g0 d" and
    nbk: "\<not> is_dir g0 (B @ ''/'' @ basename x)"
    by (simp_all add: ready_def)
  show ?thesis
    by (rule rename_step_effect [OF assms(3,4) nd pd d B bn x xb dd nbk assms(5)])
qed

lemma ready_step:
  assumes st: "setting cfg d B" and rd: "ready d B (x # xs) g0"
    and pf: "process_file ev cfg B x c g0 = (Inr r, f1)"
    and pn: "plain_name (the (new_name r))"
  shows "ready d B xs f1"
proof (cases "skipped r = None")
  case False
  then have "f1 = g0"
    using pf by (auto elim: process_file_skippedE)
  then show ?thesis
    using rd by (simp add: ready_def)
next
  case True
  from st obtain bn where bn: "plain_name bn" and B: "B = d @ ''/'' @ bn"
    by (auto simp: setting_def)
  from step_effect [OF st rd pf True pn] obtain cm m mB where
    nex: "\<not> exists g0 (d @ ''/'' @ the (new_name r))" and
    nfB: "\<not> is_file g0 B" and
    lf: "\<And>p. lookup f1 p =
           (if p = d @ ''/'' @ the (new_name r) then Some (File cm m)
            else if p = x then None
            else if p = B @ ''/'' @ basename x then Some (File cm m)
            else if p = B then Some (Dir mB)
            else if p = d then Some (Dir (now ev))
            else lookup g0 p)"
    by blast
  have sn: "CHR ''/'' \<notin> set (the (new_name r))"
    using pn by (simp add: plain_name_def)
  have xs0: "x = d @ ''/'' @ basename x"
    using rd by (simp add: ready_def)
  have dx: "d \<noteq> x"
    using xs0 child_neq_dir [of d "basename x"] by metis
  have dd: "is_dir f1 d"
    using dx by (simp add: is_dir_iff lf B)
  have each: "y = d @ ''/'' @ basename y \<and> basename y \<noteq> []
            \<and> is_file f1 y \<and> \<not> is_dir f1 (B @ ''/'' @ basename y)"
    if y: "y \<in> set xs" for y
  proof -
    from rd y have
      ys: "y = d @ ''/'' @ basename y" and yb: "basename y \<noteq> []" and
      yf: "is_file g0 y" and ybk: "\<not> is_dir g0 (B @ ''/'' @ basename y)" and
      yx: "y \<noteq> x" and xs: "x = d @ ''/'' @ basename x"
      by (auto simp: ready_def)
    have sy: "CHR ''/'' \<notin> set (basename y)"
      by (rule basename_no_slash)
    have bne: "basename y \<noteq> basename x"
      using ys xs yx by metis
    have 1: "y \<noteq> d @ ''/'' @ the (new_name r)"
      using yf nex by (auto simp: is_file_iff exists_iff)
    have 2: "y \<noteq> B @ ''/'' @ basename x"
      using child_neq_grandchild [OF sy, of d bn "basename x"] ys unfolding B by metis
    have 3: "y \<noteq> B"
      using yf nfB by auto
    have 4: "y \<noteq> d"
      using ys child_neq_dir [of d "basename y"] by metis
    have "lookup f1 y = lookup g0 y"
      using 1 2 3 4 yx by (simp add: lf)
    then have a: "is_file f1 y"
      using yf by (simp add: is_file_iff)
    have 5: "B @ ''/'' @ basename y \<noteq> d @ ''/'' @ the (new_name r)"
      using child_neq_grandchild [OF sn, of d bn "basename y"] unfolding B by metis
    have 6: "B @ ''/'' @ basename y \<noteq> x"
      using child_neq_grandchild [OF basename_no_slash, of d x bn "basename y"] xs
      unfolding B by metis
    have 7: "B @ ''/'' @ basename y \<noteq> B @ ''/'' @ basename x"
      using bne by simp
    have 8: "B @ ''/'' @ basename y \<noteq> B" "B @ ''/'' @ basename y \<noteq> d"
      unfolding B by simp_all
    have "lookup f1 (B @ ''/'' @ basename y) = lookup g0 (B @ ''/'' @ basename y)"
      using 5 6 7 8 by (simp add: lf)
    then have b: "\<not> is_dir f1 (B @ ''/'' @ basename y)"
      using ybk by (simp add: is_dir_iff)
    show ?thesis using ys yb a b by simp
  qed
  have "distinct xs"
    using rd by (simp add: ready_def)
  then show ?thesis
    using dd each by (simp add: ready_def)
qed

section \<open>The renaming loop, exactly\<close>

lemma process_file_shape:
  assumes "process_file ev cfg B x c g0 = (Inr r, f1)"
  shows "\<exists>name'. new_name r = Some name'
           \<and> new_path r = Some (path_join (directory cfg) name')
           \<and> original_path r = Some x \<and> original_name r = Some (basename x)
           \<and> (skipped r = None \<or> skipped r = Some ''Name unchanged.'')"
  using assms unfolding process_file_def Let_def
  by (auto split: sum.splits if_splits)

lemma new_paths_avoid:
  assumes "rename_loop ev cfg B files c [] g0 = (Inr rs, g)" and "\<not> dry_run cfg"
    and "exists g0 p" and "p \<notin> set files"
  shows "\<forall>q \<in> set rs. skipped q = None \<longrightarrow> new_path q \<noteq> Some p"
  using assms(1,3,4)
proof (induction files arbitrary: c g0 rs)
  case Nil
  then show ?case by simp
next
  case (Cons x xs)
  from Cons.prems(1) obtain r rs' f1 where
    pf: "process_file ev cfg B x c g0 = (Inr r, f1)" and
    rl: "rename_loop ev cfg B xs (if numbering cfg then c + 1 else c) [] f1 = (Inr rs', g)" and
    rs: "rs = r # rs'"
    by (rule rename_loop_ConsE)
  have hd: "new_path r \<noteq> Some p" if "skipped r = None"
  proof -
    from pf that assms(2) obtain name' where
      "new_path r = Some (path_join (directory cfg) name')" and
      "\<not> exists g0 (path_join (directory cfg) name')"
      by (rule process_file_renamedE)
    then show ?thesis using Cons.prems(2) by auto
  qed
  have "exists f1 p"
    using process_file_keeps [OF pf] Cons.prems(2,3) by (simp add: keeps_but_def)
  from Cons.IH [OF rl this] Cons.prems(3) hd rs show ?case by simp
qed

lemma step_later_file:
  assumes st: "setting cfg d B" and rd: "ready d B (x # xs) g0"
    and pf: "process_file ev cfg B x c g0 = (Inr r, f1)"
    and pn: "plain_name (the (new_name r))" and y: "y \<in> set xs"
  shows "lookup f1 y = lookup g0 y"
proof (cases "skipped r = None")
  case False
  then have "f1 = g0"
    using pf by (auto elim: process_file_skippedE)
  then show ?thesis by simp
next
  case True
  from st obtain bn where bn: "plain_name bn" and B: "B = d @ ''/'' @ bn"
    by (auto simp: setting_def)
  from step_effect [OF st rd pf True pn] obtain cm m mB where
    nex: "\<not> exists g0 (d @ ''/'' @ the (new_name r))" and
    nfB: "\<not> is_file g0 B" and
    lf: "\<And>p. lookup f1 p =
           (if p = d @ ''/'' @ the (new_name r) then Some (File cm m)
            else if p = x then None
            else if p = B @ ''/'' @ basename x then Some (File cm m)
            else if p = B then Some (Dir mB)
            else if p = d then Some (Dir (now ev))
            else lookup g0 p)"
    by blast
  from rd y have
    ys: "y = d @ ''/'' @ basename y" and yf: "is_file g0 y" and yx: "y \<noteq> x"
    by (auto simp: ready_def)
  have 1: "y \<noteq> d @ ''/'' @ the (new_name r)"
    using yf nex by (auto simp: is_file_iff exists_iff)
  have 2: "y \<noteq> B @ ''/'' @ basename x"
    using child_neq_grandchild [OF basename_no_slash, of d y bn "basename x"] ys
    unfolding B by metis
  have 3: "y \<noteq> B"
    using yf nfB by auto
  have 4: "y \<noteq> d"
    using ys child_neq_dir [of d "basename y"] by metis
  show ?thesis
    using 1 2 3 4 yx by (simp add: lf)
qed

lemma loop_frame:
  assumes st: "setting cfg d B"
    and run: "rename_loop ev cfg B files c [] g0 = (Inr rs, g)"
    and rd: "ready d B files g0"
    and pn: "\<forall>r \<in> set rs. plain_name (the (new_name r))"
    and p: "p \<noteq> d" "p \<noteq> B" "\<forall>x \<in> set files. p \<noteq> x \<and> p \<noteq> B @ ''/'' @ basename x"
      "\<forall>r \<in> set rs. skipped r = None \<longrightarrow> new_path r \<noteq> Some p"
  shows "lookup g p = lookup g0 p"
  using run rd pn p(3,4)
proof (induction files arbitrary: c g0 rs)
  case Nil
  then show ?case by simp
next
  case (Cons x xs)
  from Cons.prems(1) obtain r rs' f1 where
    pf: "process_file ev cfg B x c g0 = (Inr r, f1)" and
    rl: "rename_loop ev cfg B xs (if numbering cfg then c + 1 else c) [] f1 = (Inr rs', g)" and
    rs: "rs = r # rs'"
    by (rule rename_loop_ConsE)
  have pnr: "plain_name (the (new_name r))"
    using Cons.prems(3) rs by simp
  have rd1: "ready d B xs f1"
    by (rule ready_step [OF st Cons.prems(2) pf pnr])
  have "lookup g p = lookup f1 p"
    using Cons.IH [OF rl rd1] Cons.prems(3,4,5) rs by simp
  also have "lookup f1 p = lookup g0 p"
  proof (cases "skipped r = None")
    case False
    then have "f1 = g0"
      using pf by (auto elim: process_file_skippedE)
    then show ?thesis by simp
  next
    case True
    from step_effect [OF st Cons.prems(2) pf True pnr] obtain cm m mB where
      np: "new_path r = Some (d @ ''/'' @ the (new_name r))" and
      lf: "\<And>p. lookup f1 p =
           (if p = d @ ''/'' @ the (new_name r) then Some (File cm m)
            else if p = x then None
            else if p = B @ ''/'' @ basename x then Some (File cm m)
            else if p = B then Some (Dir mB)
            else if p = d then Some (Dir (now ev))
            else lookup g0 p)"
      by blast
    have "p \<noteq> d @ ''/'' @ the (new_name r)"
      using Cons.prems(5) rs True np by auto
    then show ?thesis
      using Cons.prems(4) p(1,2) by (simp add: lf)
  qed
  finally show ?case .
qed

lemma loop_effect:
  assumes st: "setting cfg d B"
    and run: "rename_loop ev cfg B files c [] g0 = (Inr rs, g)"
    and rd: "ready d B files g0"
    and pn: "\<forall>r \<in> set rs. plain_name (the (new_name r))"
    and chain: "\<forall>r \<in> set rs. skipped r = None
                  \<longrightarrow> (\<forall>x \<in> set files. the (new_name r) \<noteq> basename x)"
  shows "\<forall>r \<in> set rs. skipped r = None \<longrightarrow>
           (\<exists>x cm m. x \<in> set files \<and> original_path r = Some x
              \<and> original_name r = Some (basename x)
              \<and> new_path r = Some (d @ ''/'' @ the (new_name r))
              \<and> lookup g0 x = Some (File cm m)
              \<and> lookup g (B @ ''/'' @ basename x) = Some (File cm m)
              \<and> lookup g (d @ ''/'' @ the (new_name r)) = Some (File cm m)
              \<and> lookup g x = None)"
  using run rd pn chain
proof (induction files arbitrary: c g0 rs)
  case Nil
  then show ?case by simp
next
  case (Cons x xs)
  from st obtain bn where
    nd: "\<not> dry_run cfg" and pd: "plain_dir d" and d: "d = directory cfg" and
    bn: "plain_name bn" and B: "B = d @ ''/'' @ bn"
    by (auto simp: setting_def)
  from Cons.prems(1) obtain r rs' f1 where
    pf: "process_file ev cfg B x c g0 = (Inr r, f1)" and
    rl: "rename_loop ev cfg B xs (if numbering cfg then c + 1 else c) [] f1 = (Inr rs', g)" and
    rs: "rs = r # rs'"
    by (rule rename_loop_ConsE)
  have pnr: "plain_name (the (new_name r))"
    using Cons.prems(3) rs by simp
  have pn': "\<forall>q \<in> set rs'. plain_name (the (new_name q))"
    using Cons.prems(3) rs by simp
  have rd1: "ready d B xs f1"
    by (rule ready_step [OF st Cons.prems(2) pf pnr])
  have ch': "\<forall>q \<in> set rs'. skipped q = None
                  \<longrightarrow> (\<forall>y \<in> set xs. the (new_name q) \<noteq> basename y)"
    using Cons.prems(4) rs by simp
  have xs0: "x = d @ ''/'' @ basename x"
    using Cons.prems(2) by (simp add: ready_def)
  have shape: "\<forall>q \<in> set rs'. new_path q = Some (d @ ''/'' @ the (new_name q))"
  proof
    fix q
    assume q: "q \<in> set rs'"
    have "\<forall>q \<in> set rs'. \<exists>name'. new_name q = Some name'
           \<and> new_path q = Some (path_join (directory cfg) name')
           \<and> original_path q = Some (the (original_path q))
           \<and> original_name q = Some (the (original_name q))
           \<and> (skipped q = None \<or> skipped q = Some ''Name unchanged.'')"
      by (rule rename_loop_all [OF _ rl]) (drule process_file_shape, auto)
    then obtain name' where
      a: "new_name q = Some name'" and
      b: "new_path q = Some (path_join (directory cfg) name')"
      using q by blast
    have "plain_name name'"
      using pn' q a by auto
    from path_join_plain [OF pd this] show "new_path q = Some (d @ ''/'' @ the (new_name q))"
      using a b d by simp
  qed
  have tl: "\<forall>q \<in> set rs'. skipped q = None \<longrightarrow>
           (\<exists>y cm m. y \<in> set (x # xs) \<and> original_path q = Some y
              \<and> original_name q = Some (basename y)
              \<and> new_path q = Some (d @ ''/'' @ the (new_name q))
              \<and> lookup g0 y = Some (File cm m)
              \<and> lookup g (B @ ''/'' @ basename y) = Some (File cm m)
              \<and> lookup g (d @ ''/'' @ the (new_name q)) = Some (File cm m)
              \<and> lookup g y = None)"
  proof (intro ballI impI)
    fix q
    assume q: "q \<in> set rs'" and sk: "skipped q = None"
    from Cons.IH [OF rl rd1 pn' ch'] q sk obtain y cm m where
      y: "y \<in> set xs" and
      f: "original_path q = Some y" "original_name q = Some (basename y)"
         "new_path q = Some (d @ ''/'' @ the (new_name q))"
         "lookup f1 y = Some (File cm m)"
         "lookup g (B @ ''/'' @ basename y) = Some (File cm m)"
         "lookup g (d @ ''/'' @ the (new_name q)) = Some (File cm m)"
         "lookup g y = None"
      by blast
    have "lookup g0 y = Some (File cm m)"
      using step_later_file [OF st Cons.prems(2) pf pnr y] f(4) by simp
    then show "\<exists>y cm m. y \<in> set (x # xs) \<and> original_path q = Some y
              \<and> original_name q = Some (basename y)
              \<and> new_path q = Some (d @ ''/'' @ the (new_name q))
              \<and> lookup g0 y = Some (File cm m)
              \<and> lookup g (B @ ''/'' @ basename y) = Some (File cm m)
              \<and> lookup g (d @ ''/'' @ the (new_name q)) = Some (File cm m)
              \<and> lookup g y = None"
      using y f by auto
  qed
  have hd: "\<exists>y cm m. y \<in> set (x # xs) \<and> original_path r = Some y
              \<and> original_name r = Some (basename y)
              \<and> new_path r = Some (d @ ''/'' @ the (new_name r))
              \<and> lookup g0 y = Some (File cm m)
              \<and> lookup g (B @ ''/'' @ basename y) = Some (File cm m)
              \<and> lookup g (d @ ''/'' @ the (new_name r)) = Some (File cm m)
              \<and> lookup g y = None"
    if sk: "skipped r = None"
  proof -
    let ?np = "d @ ''/'' @ the (new_name r)"
    let ?bk = "B @ ''/'' @ basename x"
    from step_effect [OF st Cons.prems(2) pf sk pnr] obtain cm m mB where
      fx: "lookup g0 x = Some (File cm m)" and
      np: "new_path r = Some ?np" and
      op: "original_path r = Some x" and on: "original_name r = Some (basename x)" and
      nex: "\<not> exists g0 ?np" and
      ne: "?np \<noteq> x" "?np \<noteq> B" "x \<noteq> B" and
      lf: "\<And>p. lookup f1 p =
           (if p = ?np then Some (File cm m)
            else if p = x then None
            else if p = ?bk then Some (File cm m)
            else if p = B then Some (Dir mB)
            else if p = d then Some (Dir (now ev))
            else lookup g0 p)"
      by blast
    have sn: "CHR ''/'' \<notin> set (the (new_name r))"
      using pnr by (simp add: plain_name_def)
    have npbk: "?np \<noteq> ?bk"
      using child_neq_grandchild [OF sn, of d bn "basename x"] unfolding B by metis
    have xbk: "x \<noteq> ?bk"
      using child_neq_grandchild [OF basename_no_slash, of d x bn "basename x"] xs0
      unfolding B by metis
    have xd: "x \<noteq> d"
      using xs0 child_neq_dir [of d "basename x"] by metis
    have later: "y = d @ ''/'' @ basename y \<and> is_file g0 y \<and> y \<noteq> x"
      if "y \<in> set xs" for y
      using Cons.prems(2) that by (auto simp: ready_def)
    have qshape: "new_path q = Some (d @ ''/'' @ the (new_name q))
                \<and> CHR ''/'' \<notin> set (the (new_name q))" if "q \<in> set rs'" for q
      using shape pn' that by (simp add: plain_name_def)
    \<comment> \<open>the backup copy stays\<close>
    have 1: "lookup g ?bk = lookup f1 ?bk"
    proof (rule loop_frame [OF st rl rd1 pn'])
      show "?bk \<noteq> d" unfolding B by simp
      show "?bk \<noteq> B" by simp
      show "\<forall>y \<in> set xs. ?bk \<noteq> y \<and> ?bk \<noteq> B @ ''/'' @ basename y"
      proof
        fix y
        assume y: "y \<in> set xs"
        have "?bk \<noteq> y"
          using child_neq_grandchild [OF basename_no_slash, of d y bn "basename x"]
            later [OF y] unfolding B by metis
        moreover have "basename x \<noteq> basename y"
          using later [OF y] xs0 by metis
        ultimately show "?bk \<noteq> y \<and> ?bk \<noteq> B @ ''/'' @ basename y"
          by simp
      qed
      show "\<forall>q \<in> set rs'. skipped q = None \<longrightarrow> new_path q \<noteq> Some ?bk"
      proof (intro ballI impI)
        fix q
        assume q: "q \<in> set rs'"
        have "d @ ''/'' @ the (new_name q) \<noteq> ?bk"
          using child_neq_grandchild [of "the (new_name q)" d bn "basename x"] qshape [OF q]
          unfolding B by metis
        then show "new_path q \<noteq> Some ?bk"
          using qshape [OF q] by simp
      qed
    qed
    \<comment> \<open>the renamed file stays\<close>
    have npx: "?np \<notin> set xs"
    proof
      assume "?np \<in> set xs"
      from later [OF this] nex show False
        by (auto simp: is_file_iff exists_iff)
    qed
    have exnp: "exists f1 ?np"
      by (simp add: exists_iff lf)
    have 2: "lookup g ?np = lookup f1 ?np"
    proof (rule loop_frame [OF st rl rd1 pn'])
      show "?np \<noteq> d" by simp
      show "?np \<noteq> B" by (rule ne(2))
      show "\<forall>y \<in> set xs. ?np \<noteq> y \<and> ?np \<noteq> B @ ''/'' @ basename y"
      proof
        fix y
        assume y: "y \<in> set xs"
        have "?np \<noteq> B @ ''/'' @ basename y"
          using child_neq_grandchild [OF sn, of d bn "basename y"] unfolding B by metis
        then show "?np \<noteq> y \<and> ?np \<noteq> B @ ''/'' @ basename y"
          using npx y by auto
      qed
      show "\<forall>q \<in> set rs'. skipped q = None \<longrightarrow> new_path q \<noteq> Some ?np"
        by (rule new_paths_avoid [OF rl nd exnp npx])
    qed
    \<comment> \<open>the old path stays free\<close>
    have 3: "lookup g x = lookup f1 x"
    proof (rule loop_frame [OF st rl rd1 pn'])
      show "x \<noteq> d" by (rule xd)
      show "x \<noteq> B" by (rule ne(3))
      show "\<forall>y \<in> set xs. x \<noteq> y \<and> x \<noteq> B @ ''/'' @ basename y"
      proof
        fix y
        assume y: "y \<in> set xs"
        have "x \<noteq> B @ ''/'' @ basename y"
          using child_neq_grandchild [OF basename_no_slash, of d x bn "basename y"] xs0
          unfolding B by metis
        then show "x \<noteq> y \<and> x \<noteq> B @ ''/'' @ basename y"
          using later [OF y] by auto
      qed
      show "\<forall>q \<in> set rs'. skipped q = None \<longrightarrow> new_path q \<noteq> Some x"
      proof (intro ballI impI)
        fix q
        assume q: "q \<in> set rs'" and sk: "skipped q = None"
        have "the (new_name q) \<noteq> basename x"
          using Cons.prems(4) rs q sk by simp
        then have "d @ ''/'' @ the (new_name q) \<noteq> x"
          using xs0 by (metis child_inj)
        then show "new_path q \<noteq> Some x"
          using qshape [OF q] by simp
      qed
    qed
    show ?thesis
      using fx np op on 1 2 3 ne npbk xbk
      by (intro exI [of _ x] exI [of _ cm] exI [of _ m]) (simp add: lf)
  qed
  show ?case
    using hd tl rs by simp
qed

lemma getmtime_None: "lookup fs p = None \<Longrightarrow> getmtime fs p = 0"
  by (simp add: getmtime_def)

lemma getmtime_File: "lookup fs p = Some (File c m) \<Longrightarrow> getmtime fs p = m"
  by (simp add: getmtime_def)

lemma getmtime_Dir: "lookup fs p = Some (Dir m) \<Longrightarrow> getmtime fs p = m"
  by (simp add: getmtime_def)

lemma getmtime_cong: "lookup fs p = lookup fs' p \<Longrightarrow> getmtime fs p = getmtime fs' p"
  by (simp add: getmtime_def)

lemma loop_times:
  assumes st: "setting cfg d B"
    and run: "rename_loop ev cfg B files c [] g0 = (Inr rs, g)"
    and rd: "ready d B files g0"
    and pn: "\<forall>r \<in> set rs. plain_name (the (new_name r))"
    and tm: "\<forall>p. p \<noteq> d \<and> p \<noteq> B \<longrightarrow> getmtime g0 p < now ev"
    and pos: "0 < now ev"
  shows "(\<forall>p. p \<noteq> d \<and> p \<noteq> B \<longrightarrow> getmtime g p < now ev)
       \<and> is_dir g d
       \<and> (lookup g0 B = Some (Dir (now ev)) \<longrightarrow> lookup g B = Some (Dir (now ev)))
       \<and> (lookup g0 B = None \<and> (\<exists>r \<in> set rs. skipped r = None)
            \<longrightarrow> lookup g B = Some (Dir (now ev)))"
  using run rd pn tm
proof (induction files arbitrary: c g0 rs)
  case Nil
  then show ?case by (simp add: ready_def)
next
  case (Cons x xs)
  from Cons.prems(1) obtain r rs' f1 where
    pf: "process_file ev cfg B x c g0 = (Inr r, f1)" and
    rl: "rename_loop ev cfg B xs (if numbering cfg then c + 1 else c) [] f1 = (Inr rs', g)" and
    rs: "rs = r # rs'"
    by (rule rename_loop_ConsE)
  have pnr: "plain_name (the (new_name r))"
    using Cons.prems(3) rs by simp
  have pn': "\<forall>q \<in> set rs'. plain_name (the (new_name q))"
    using Cons.prems(3) rs by simp
  have rd1: "ready d B xs f1"
    by (rule ready_step [OF st Cons.prems(2) pf pnr])
  show ?case
  proof (cases "skipped r = None")
    case False
    then have "f1 = g0"
      using pf by (auto elim: process_file_skippedE)
    then show ?thesis
      using Cons.IH [OF rl rd1 pn'] Cons.prems(4) rs False by auto
  next
    case True
    let ?np = "d @ ''/'' @ the (new_name r)"
    let ?bk = "B @ ''/'' @ basename x"
    from step_effect [OF st Cons.prems(2) pf True pnr] obtain cm m mB where
      fx: "lookup g0 x = Some (File cm m)" and
      ne0: "?np \<noteq> B" and
      ne: "x \<noteq> B" and
      lf: "\<And>p. lookup f1 p =
           (if p = ?np then Some (File cm m)
            else if p = x then None
            else if p = ?bk then Some (File cm m)
            else if p = B then Some (Dir mB)
            else if p = d then Some (Dir (now ev))
            else lookup g0 p)" and
      mB: "lookup g0 B = None \<or> lookup g0 B = Some (Dir (now ev)) \<longrightarrow> mB = now ev"
      by blast
    have xs0: "x = d @ ''/'' @ basename x"
      using Cons.prems(2) by (simp add: ready_def)
    have xd: "x \<noteq> d"
      using xs0 child_neq_dir [of d "basename x"] by metis
    have m: "m < now ev"
      using Cons.prems(4) xd ne getmtime_File [OF fx] by auto
    have tm1: "\<forall>p. p \<noteq> d \<and> p \<noteq> B \<longrightarrow> getmtime f1 p < now ev"
    proof (intro allI impI)
      fix p
      assume p: "p \<noteq> d \<and> p \<noteq> B"
      show "getmtime f1 p < now ev"
      proof (cases "p = ?np \<or> p = x \<or> p = ?bk")
        case True
        then show ?thesis
          using m pos by (auto simp: getmtime_def lf)
      next
        case False
        then have "lookup f1 p = lookup g0 p"
          using p by (simp add: lf)
        then show ?thesis
          using Cons.prems(4) p getmtime_cong [of f1 p g0] by auto
      qed
    qed
    have B1: "lookup f1 B = Some (Dir mB)"
      using ne0 ne by (auto simp: lf)
    from Cons.IH [OF rl rd1 pn' tm1] have
      a: "\<forall>p. p \<noteq> d \<and> p \<noteq> B \<longrightarrow> getmtime g p < now ev" and
      b: "is_dir g d" and
      c: "lookup f1 B = Some (Dir (now ev)) \<longrightarrow> lookup g B = Some (Dir (now ev))"
      by blast+
    show ?thesis
      using a b c B1 mB by auto
  qed
qed

lemma new_paths_distinct:
  assumes st: "setting cfg d B"
    and run: "rename_loop ev cfg B files c [] g0 = (Inr rs, g)"
    and rd: "ready d B files g0"
    and pn: "\<forall>r \<in> set rs. plain_name (the (new_name r))"
  shows "distinct (map new_path (filter (\<lambda>r. skipped r = None) rs))"
  using run rd pn
proof (induction files arbitrary: c g0 rs)
  case Nil
  then show ?case by simp
next
  case (Cons x xs)
  from st have nd: "\<not> dry_run cfg"
    by (simp add: setting_def)
  from Cons.prems(1) obtain r rs' f1 where
    pf: "process_file ev cfg B x c g0 = (Inr r, f1)" and
    rl: "rename_loop ev cfg B xs (if numbering cfg then c + 1 else c) [] f1 = (Inr rs', g)" and
    rs: "rs = r # rs'"
    by (rule rename_loop_ConsE)
  have pnr: "plain_name (the (new_name r))"
    using Cons.prems(3) rs by simp
  have pn': "\<forall>q \<in> set rs'. plain_name (the (new_name q))"
    using Cons.prems(3) rs by simp
  have rd1: "ready d B xs f1"
    by (rule ready_step [OF st Cons.prems(2) pf pnr])
  have tl: "distinct (map new_path (filter (\<lambda>r. skipped r = None) rs'))"
    by (rule Cons.IH [OF rl rd1 pn'])
  show ?case
  proof (cases "skipped r = None")
    case False
    then show ?thesis using tl rs by auto
  next
    case True
    let ?np = "d @ ''/'' @ the (new_name r)"
    from step_effect [OF st Cons.prems(2) pf True pnr] obtain cm m mB where
      np: "new_path r = Some ?np" and
      nex: "\<not> exists g0 ?np" and
      lf: "\<And>p. lookup f1 p =
           (if p = ?np then Some (File cm m)
            else if p = x then None
            else if p = B @ ''/'' @ basename x then Some (File cm m)
            else if p = B then Some (Dir mB)
            else if p = d then Some (Dir (now ev))
            else lookup g0 p)"
      by blast
    have npx: "?np \<notin> set xs"
    proof
      assume "?np \<in> set xs"
      then have "is_file g0 ?np"
        using Cons.prems(2) by (auto simp: ready_def)
      then show False using nex by (auto simp: is_file_iff exists_iff)
    qed
    have exnp: "exists f1 ?np"
      by (simp add: exists_iff lf)
    have "\<forall>q \<in> set rs'. skipped q = None \<longrightarrow> new_path q \<noteq> Some ?np"
      by (rule new_paths_avoid [OF rl nd exnp npx])
    then have "new_path r \<notin> set (map new_path (filter (\<lambda>r. skipped r = None) rs'))"
      using np by auto
    then show ?thesis using tl rs True by simp
  qed
qed

section \<open>The loop of \<open>undo_rename\<close>\<close>

definition restorable ::
  "string \<Rightarrow> string \<Rightarrow> filesys \<Rightarrow> filesys \<Rightarrow> rename_record list \<Rightarrow> bool" where
  \<comment> \<open>the records \<open>rs\<close> can be undone in \<open>h\<close>: each carries the skipped mark or none; for
      each one without it, the backup copy in \<open>B\<close> is the file that \<open>fs0\<close> had at the
      original path, a regular file is at the new path, no directory at the original one,
      and no record has that new path as its original path\<close>
  "restorable d B fs0 h rs =
     (is_dir h d \<and> distinct (map original_path rs)
      \<and> distinct (map new_path (filter (\<lambda>r. skipped r = None) rs))
      \<and> (\<forall>r \<in> set rs.
            (skipped r = None \<or> truthy (skipped r))
            \<and> (skipped r = None \<longrightarrow>
                 (\<exists>x n cm m.
                    original_path r = Some x \<and> original_name r = Some (basename x)
                    \<and> x = d @ ''/'' @ basename x \<and> basename x \<noteq> []
                    \<and> new_path r = Some (d @ ''/'' @ n) \<and> CHR ''/'' \<notin> set n
                    \<and> lookup fs0 x = Some (File cm m)
                    \<and> lookup h (B @ ''/'' @ basename x) = Some (File cm m)
                    \<and> is_file h (d @ ''/'' @ n) \<and> \<not> is_dir h x
                    \<and> (\<forall>q \<in> set rs. original_path q \<noteq> Some (d @ ''/'' @ n))))))"

lemma restore_step:
  assumes pd: "plain_dir d" and bn: "plain_name bn" and B: "B = d @ ''/'' @ bn"
    and r: "skipped r = None" "original_path r = Some x"
      "original_name r = Some (basename x)" "x = d @ ''/'' @ basename x" "basename x \<noteq> []"
      "new_path r = Some (d @ ''/'' @ n)" "CHR ''/'' \<notin> set n"
    and h: "lookup h (B @ ''/'' @ basename x) = Some (File cm m)" "is_file h (d @ ''/'' @ n)"
      "\<not> is_dir h x" "is_dir h d" "d @ ''/'' @ n \<noteq> x"
  shows "\<exists>h2. restore_record ev B r h = (Restored, h2)
           \<and> (\<forall>p. lookup h2 p =
                 (if p = d @ ''/'' @ n then None
                  else if p = x then Some (File cm m)
                  else if p = d then Some (Dir (now ev))
                  else lookup h p))"
proof -
  let ?T = "now ev"
  let ?np = "d @ ''/'' @ n"
  let ?bk = "B @ ''/'' @ basename x"
  have pB: "plain_dir B"
    unfolding B by (rule plain_dir_child [OF bn])
  have pjb: "path_join B (basename x) = ?bk"
    by (rule path_join_plain [OF pB plain_name_basename [OF r(5)]])
  have dnx: "dirname x = d"
    using dirname_append [OF pd basename_no_slash, of x] r(4) by simp
  have dnnp: "dirname ?np = d"
    by (rule dirname_append [OF pd r(7)])
  have xbk: "x \<noteq> ?bk"
    using child_neq_grandchild [OF basename_no_slash, of d x bn "basename x"] r(4)
    unfolding B by metis
  have xd: "x \<noteq> d"
    using r(4) child_neq_dir [of d "basename x"] by metis
  have npd: "?np \<noteq> d"
    by simp
  have xne: "x \<noteq> []"
    using xd pd r(4) by auto
  define h1 where "h1 = put_node ?T x (File cm m) h"
  have cp: "copy2 ?T ?bk x h = Inr h1"
    using h(1,3,4) xbk dnx xne by (simp add: copy2_def Let_def parent_ok_def h1_def)
  have l1: "lookup h1 p =
      (if p = x then Some (File cm m)
       else if \<not> exists h x \<and> p = d then Some (Dir ?T)
       else lookup h p)" for p
    unfolding h1_def using h(4) dnx by (auto simp: lookup_put_node)
  obtain c' m' where fnp: "lookup h ?np = Some (File c' m')"
    using h(2) by (auto simp: is_file_iff)
  have fnp1: "lookup h1 ?np = Some (File c' m')"
    using fnp h(5) npd by (simp add: l1)
  define h2 where "h2 = remove_node ?T ?np h1"
  have rm: "os_remove ?T ?np h1 = Inr h2"
    using fnp1 by (simp add: os_remove_def h2_def)
  have d1: "is_dir h1 d"
    using h(4) xd by (auto simp: is_dir_iff l1)
  have l2: "lookup h2 p =
      (if p = ?np then None
       else if p = x then Some (File cm m)
       else if p = d then Some (Dir ?T)
       else lookup h p)" for p
    unfolding h2_def using d1 dnnp h(5) xd by (auto simp: lookup_remove_node l1)
  have ex1: "exists h ?bk" "exists h ?np" "exists h1 ?np"
    using h(1) fnp fnp1 by (simp_all add: exists_iff)
  have "restore_record ev B r h = (Restored, h2)"
    using r(1,2,3,6) h(5) pjb cp rm ex1
    by (simp add: restore_record_def Let_def or_empty_def truthy_def)
  then show ?thesis
    using l2 by blast
qed

lemma undo_loop_restores:
  assumes pd: "plain_dir d" and bn: "plain_name bn" and B: "B = d @ ''/'' @ bn"
    and rb: "restorable d B fs0 h rs"
  shows "\<exists>dets' h'.
      undo_loop ev B rs a s dets h
        = ((a + length (filter (\<lambda>r. skipped r = None) rs),
            s + length (filter (\<lambda>r. skipped r \<noteq> None) rs), dets'), h')
    \<and> (\<forall>r \<in> set rs. skipped r = None
          \<longrightarrow> lookup h' (the (original_path r)) = lookup fs0 (the (original_path r))
              \<and> \<not> exists h' (the (new_path r)))
    \<and> (\<forall>p. p \<noteq> d \<and> (\<forall>r \<in> set rs. skipped r = None
                           \<longrightarrow> original_path r \<noteq> Some p \<and> new_path r \<noteq> Some p)
          \<longrightarrow> lookup h' p = lookup h p)"
  using rb
proof (induction rs arbitrary: a s dets h)
  case Nil
  then show ?case by simp
next
  case (Cons r rs)
  note rb = Cons.prems
  show ?case
  proof (cases "skipped r = None")
    case False
    then have t: "truthy (skipped r)"
      using rb by (auto simp: restorable_def)
    have rr: "restore_record ev B r h = (SkippedNotRenamed, h)"
      using t by (simp add: restore_record_def Let_def)
    have rb': "restorable d B fs0 h rs"
      using rb False unfolding restorable_def by auto
    from Cons.IH [OF rb', of a "s + 1" "dets @ [(or_empty (original_name r), SkippedNotRenamed)]"]
    show ?thesis
      using rr False by auto
  next
    case True
    from rb True obtain x n cm m where
      op: "original_path r = Some x" and on: "original_name r = Some (basename x)" and
      xs: "x = d @ ''/'' @ basename x" and xb: "basename x \<noteq> []" and
      np: "new_path r = Some (d @ ''/'' @ n)" and sn: "CHR ''/'' \<notin> set n" and
      f0: "lookup fs0 x = Some (File cm m)" and
      bk: "lookup h (B @ ''/'' @ basename x) = Some (File cm m)" and
      fn: "is_file h (d @ ''/'' @ n)" and ndx: "\<not> is_dir h x" and
      no: "\<forall>q \<in> set (r # rs). original_path q \<noteq> Some (d @ ''/'' @ n)"
      unfolding restorable_def by auto
    let ?np = "d @ ''/'' @ n"
    have dd: "is_dir h d"
      using rb by (simp add: restorable_def)
    have npx: "?np \<noteq> x"
      using no op by auto
    from restore_step [OF pd bn B True op on xs xb np sn bk fn ndx dd npx, of ev]
    obtain h2 where
      rr: "restore_record ev B r h = (Restored, h2)" and
      l2: "\<And>p. lookup h2 p =
                 (if p = ?np then None
                  else if p = x then Some (File cm m)
                  else if p = d then Some (Dir (now ev))
                  else lookup h p)"
      by blast
    have xd: "x \<noteq> d"
      using xs child_neq_dir [of d "basename x"] by metis
    have "distinct (map original_path (r # rs))"
      using rb by (simp add: restorable_def)
    then have "original_path r \<notin> original_path ` set rs"
      by simp
    then have dist_o: "\<forall>q \<in> set rs. original_path q \<noteq> Some x"
      using op by force
    have "distinct (map new_path (filter (\<lambda>r. skipped r = None) (r # rs)))"
      using rb by (simp add: restorable_def)
    then have "new_path r \<notin> new_path ` set (filter (\<lambda>r. skipped r = None) rs)"
      using True by simp
    then have dist_n: "\<forall>q \<in> set rs. skipped q = None \<longrightarrow> new_path q \<noteq> Some ?np"
      using np by force
    have rb': "restorable d B fs0 h2 rs"
      unfolding restorable_def
    proof (intro conjI ballI impI)
      show "is_dir h2 d"
        using xd by (simp add: is_dir_iff l2)
      show "distinct (map original_path rs)"
        using rb by (simp add: restorable_def)
      show "distinct (map new_path (filter (\<lambda>r. skipped r = None) rs))"
        using rb by (auto simp: restorable_def split: if_splits)
    next
      fix q
      assume "q \<in> set rs"
      then show "skipped q = None \<or> truthy (skipped q)"
        using rb by (simp add: restorable_def)
    next
      fix q
      assume q: "q \<in> set rs" and sk: "skipped q = None"
      from rb q sk obtain y k cy my where
        y: "original_path q = Some y" "original_name q = Some (basename y)"
           "y = d @ ''/'' @ basename y" "basename y \<noteq> []"
           "new_path q = Some (d @ ''/'' @ k)" "CHR ''/'' \<notin> set k"
           "lookup fs0 y = Some (File cy my)"
           "lookup h (B @ ''/'' @ basename y) = Some (File cy my)"
           "is_file h (d @ ''/'' @ k)" "\<not> is_dir h y" and
        noq: "\<forall>q' \<in> set (r # rs). original_path q' \<noteq> Some (d @ ''/'' @ k)"
        unfolding restorable_def by auto
      have yx: "y \<noteq> x"
        using dist_o q y(1) by auto
      have ynp: "y \<noteq> ?np"
        using no q y(1) by auto
      have knp: "d @ ''/'' @ k \<noteq> ?np"
        using dist_n q sk y(5) by auto
      have kx: "d @ ''/'' @ k \<noteq> x"
        using noq op by auto
      have bky: "B @ ''/'' @ basename y \<noteq> ?np" "B @ ''/'' @ basename y \<noteq> x"
          "B @ ''/'' @ basename y \<noteq> d"
      proof -
        show "B @ ''/'' @ basename y \<noteq> ?np"
          using child_neq_grandchild [OF sn, of d bn "basename y"] unfolding B by metis
        show "B @ ''/'' @ basename y \<noteq> x"
          using child_neq_grandchild [OF basename_no_slash, of d x bn "basename y"] xs
          unfolding B by metis
        show "B @ ''/'' @ basename y \<noteq> d"
          unfolding B by simp
      qed
      have yd: "y \<noteq> d"
        using y(3) child_neq_dir [of d "basename y"] by metis
      have 1: "lookup h2 (B @ ''/'' @ basename y) = Some (File cy my)"
        using bky y(8) by (simp add: l2)
      have 2: "is_file h2 (d @ ''/'' @ k)"
        using y(9) knp kx by (auto simp: is_file_iff l2)
      have 3: "\<not> is_dir h2 y"
        using y(10) yx ynp yd by (auto simp: is_dir_iff l2)
      have 4: "\<forall>q' \<in> set rs. original_path q' \<noteq> Some (d @ ''/'' @ k)"
        using noq by simp
      show "\<exists>x n cm m.
              original_path q = Some x \<and> original_name q = Some (basename x)
              \<and> x = d @ ''/'' @ basename x \<and> basename x \<noteq> []
              \<and> new_path q = Some (d @ ''/'' @ n) \<and> CHR ''/'' \<notin> set n
              \<and> lookup fs0 x = Some (File cm m)
              \<and> lookup h2 (B @ ''/'' @ basename x) = Some (File cm m)
              \<and> is_file h2 (d @ ''/'' @ n) \<and> \<not> is_dir h2 x
              \<and> (\<forall>q \<in> set rs. original_path q \<noteq> Some (d @ ''/'' @ n))"
        using y(1-7) 1 2 3 4
        by (intro exI [of _ y] exI [of _ k] exI [of _ cy] exI [of _ my]) simp
    qed
    from Cons.IH [OF rb', of "a + 1" s "dets @ [(or_empty (original_name r), Restored)]"]
    obtain dets' h' where
      ul: "undo_loop ev B rs (a + 1) s (dets @ [(or_empty (original_name r), Restored)]) h2
        = ((a + 1 + length (filter (\<lambda>r. skipped r = None) rs),
            s + length (filter (\<lambda>r. skipped r \<noteq> None) rs), dets'), h')" and
      tl: "\<forall>q \<in> set rs. skipped q = None
          \<longrightarrow> lookup h' (the (original_path q)) = lookup fs0 (the (original_path q))
              \<and> \<not> exists h' (the (new_path q))" and
      fr: "\<And>p. p \<noteq> d \<Longrightarrow> (\<forall>q \<in> set rs. skipped q = None
                           \<longrightarrow> original_path q \<noteq> Some p \<and> new_path q \<noteq> Some p)
          \<Longrightarrow> lookup h' p = lookup h2 p"
      by blast
    have nox: "\<forall>q \<in> set rs. skipped q = None \<longrightarrow> new_path q \<noteq> Some x"
    proof (intro ballI impI)
      fix q
      assume q: "q \<in> set rs" and sk: "skipped q = None"
      from rb q sk obtain k where
        k: "new_path q = Some (d @ ''/'' @ k)" and
        noq: "\<forall>q' \<in> set (r # rs). original_path q' \<noteq> Some (d @ ''/'' @ k)"
        unfolding restorable_def by auto
      have "d @ ''/'' @ k \<noteq> x"
        using noq op by auto
      then show "new_path q \<noteq> Some x"
        using k by simp
    qed
    have "lookup h' x = lookup h2 x"
      using fr [OF xd] dist_o nox by auto
    then have hx: "lookup h' x = lookup fs0 x"
      using f0 npx by (simp add: l2)
    have "lookup h' ?np = lookup h2 ?np"
      using fr [of ?np] dist_n no by auto
    then have hn: "\<not> exists h' ?np"
      by (simp add: exists_iff l2)
    have frame: "lookup h' p = lookup h p"
      if p: "p \<noteq> d"
        "\<forall>q \<in> set (r # rs). skipped q = None
            \<longrightarrow> original_path q \<noteq> Some p \<and> new_path q \<noteq> Some p" for p
    proof -
      have "lookup h' p = lookup h2 p"
        using fr [OF p(1)] p(2) by simp
      moreover have "p \<noteq> x" "p \<noteq> ?np"
        using p(2) True op np by auto
      ultimately show ?thesis
        using p(1) by (simp add: l2)
    qed
    have cnt: "undo_loop ev B (r # rs) a s dets h
        = ((a + length (filter (\<lambda>r. skipped r = None) (r # rs)),
            s + length (filter (\<lambda>r. skipped r \<noteq> None) (r # rs)), dets'), h')"
      using rr ul True by simp
    show ?thesis
      using cnt hx hn tl frame op np by (intro exI [of _ dets'] exI [of _ h']) auto
  qed
qed

lemma undo_loop_all_skipped:
  assumes "\<forall>r \<in> set rs. truthy (skipped r)"
  shows "\<exists>s' dets'. undo_loop ev B rs a s dets h = ((a, s', dets'), h)"
  using assms
proof (induction rs arbitrary: s dets)
  case Nil
  then show ?case by simp
next
  case (Cons r rs)
  have "restore_record ev B r h = (SkippedNotRenamed, h)"
    using Cons.prems by (simp add: restore_record_def Let_def)
  then show ?case
    using Cons.IH [of "s + 1" "dets @ [(or_empty (original_name r), SkippedNotRenamed)]"]
      Cons.prems by simp
qed

lemma newest_unique_max:
  assumes "b \<in> set ps" and "\<forall>p \<in> set ps. p \<noteq> b \<longrightarrow> getmtime fs p < getmtime fs b"
  shows "newest fs ps = Some b"
  using assms
proof (induction ps)
  case Nil
  then show ?case by simp
next
  case (Cons p ps)
  show ?case
  proof (cases "b \<in> set ps")
    case True
    then have n: "newest fs ps = Some b"
      using Cons by simp
    show ?thesis
    proof (cases "p = b")
      case True
      then show ?thesis using n by simp
    next
      case False
      then have "getmtime fs p < getmtime fs b"
        using Cons.prems(2) by simp
      then show ?thesis using n by simp
    qed
  next
    case False
    then have pb: "p = b"
      using Cons.prems(1) by simp
    show ?thesis
    proof (cases "newest fs ps")
      case None
      then show ?thesis using pb by simp
    next
      case (Some q)
      then have "ps \<noteq> []"
        by auto
      have "q \<in> set ps"
        using Some
      proof (induction ps arbitrary: q)
        case Nil
        then show ?case by simp
      next
        case (Cons y ys)
        then show ?case
          by (auto split: option.splits if_splits)
      qed
      then have "q \<noteq> b" "getmtime fs q < getmtime fs b"
        using False Cons.prems(2) by auto
      then show ?thesis
        using Some pb by simp
    qed
  qed
qed

lemma glob_plain:
  assumes "plain_dir d" and "\<not> has_magic d"
    and "CHR ''/'' \<notin> set pre" and "CHR ''/'' \<notin> set suf"
  shows "glob ev fs d pre suf = glob_in_dir fs d pre suf"
proof -
  have pn: "plain_name (pre @ ''*'' @ suf)"
    using assms(3,4) by (simp add: plain_name_def)
  have j: "path_join d (pre @ ''*'' @ suf) = d @ ''/'' @ pre @ ''*'' @ suf"
    using path_join_plain [OF assms(1) pn] by simp
  have dn: "dirname (d @ ''/'' @ pre @ ''*'' @ suf) = d"
    using dirname_append [OF assms(1), of "pre @ ''*'' @ suf"] assms(3,4) by simp
  show ?thesis
    unfolding glob_def Let_def j dn using assms(2) by simp
qed

lemma glob_member:
  assumes "lookup fs p = Some n" and "plain_dir d" and "plain_name nm"
    and "p = d @ ''/'' @ nm" and "startswith nm pre" and "endswith nm suf"
    and "length pre + length suf \<le> length nm" and "\<not> startswith nm ''.''"
    and "\<not> has_magic d" and "CHR ''/'' \<notin> set pre" and "CHR ''/'' \<notin> set suf"
  shows "p \<in> set (glob ev fs d pre suf)"
proof -
  have m: "(p, n) \<in> set fs"
    using assms(1) by (auto simp: lookup_def dest: map_of_SomeD)
  have s: "CHR ''/'' \<notin> set nm" "nm \<noteq> []"
    using assms(3) by (simp_all add: plain_name_def)
  have b: "basename p = nm"
    unfolding assms(4) by (rule basename_append [OF s(1)])
  have j: "path_join d nm = p"
    using path_join_plain [OF assms(2,3)] assms(4) by simp
  have "p \<in> fst ` {(q, k). (q, k) \<in> set fs
            \<and> (basename q \<noteq> [] \<and> q = path_join d (basename q))
            \<and> startswith (basename q) pre \<and> endswith (basename q) suf
            \<and> length pre + length suf \<le> length (basename q)
            \<and> \<not> startswith (basename q) ''.''}"
    using m b j s(2) assms(5,6,7,8) by force
  then have "p \<in> set (glob_in_dir fs d pre suf)"
    unfolding glob_in_dir_def scandir_paths by auto
  then show ?thesis
    unfolding glob_plain [OF assms(2,9,10,11)] .
qed

lemma glob_in_dir_elem:
  assumes "q \<in> set (glob_in_dir fs d pre suf)"
  shows "basename q \<noteq> [] \<and> q = path_join d (basename q) \<and> startswith (basename q) pre"
  using assms unfolding glob_in_dir_def scandir_paths by auto

lemma glob_elem_plain:
  assumes "q \<in> set (glob ev fs d pre suf)" and "plain_dir d" and "\<not> has_magic d"
    and "CHR ''/'' \<notin> set pre" and "CHR ''/'' \<notin> set suf"
  shows "q = d @ ''/'' @ basename q \<and> q \<noteq> d \<and> startswith (basename q) pre"
proof -
  have "q \<in> set (glob_in_dir fs d pre suf)"
    using assms(1) unfolding glob_plain [OF assms(2,3,4,5)] .
  from glob_in_dir_elem [OF this] have
    b: "basename q \<noteq> []" and j: "q = path_join d (basename q)" and
    s: "startswith (basename q) pre"
    by simp_all
  have "q = d @ ''/'' @ basename q"
    using path_join_plain [OF assms(2) plain_name_basename [OF b]] j by simp
  moreover from this have "q \<noteq> d"
    using child_neq_dir [of d "basename q"] by metis
  ultimately show ?thesis using s by simp
qed

lemma entry_records_map: "entry_records (map Entry rs) = rs"
  by (induction rs) simp_all

lemma undo_rename_result:
  assumes "find_latest_log ev fs d = Some lf"
    and "load_rename_log fs lf = Inr (Some (JsonLog (Entries (map Entry (r # rs))) g))"
    and "or_empty (original_path r) \<noteq> []"
    and "newest fs (glob ev fs (dirname (or_empty (original_path r))) ''backup_'' []) = Some B"
    and "exists fs B"
    and "undo_loop ev B (r # rs) 0 0 [] fs = ((a, s, dets), fs')"
  shows "\<exists>u. undo_rename ev d None fs = (Inr u, fs') \<and> restored_count u = a"
  using assms by (simp add: undo_rename_def Let_def entry_records_map)

lemma undo_rename_all_skipped:
  assumes "find_latest_log ev fs d = Some lf"
    and "load_rename_log fs lf = Inr (Some (JsonLog (Entries (map Entry (r # rs))) g))"
    and "or_empty (original_path r) \<noteq> []"
    and "\<forall>q \<in> set (r # rs). truthy (skipped q)"
  shows "\<exists>u. undo_rename ev d None fs = (Inr u, fs) \<and> restored_count u = 0"
proof (cases "newest fs (glob ev fs (dirname (or_empty (original_path r))) ''backup_'' [])")
  case None
  then show ?thesis
    using assms(1,2,3) by (simp add: undo_rename_def Let_def)
next
  case (Some B)
  show ?thesis
  proof (cases "exists fs B")
    case False
    then show ?thesis
      using assms(1,2,3) Some by (simp add: undo_rename_def Let_def)
  next
    case True
    from undo_loop_all_skipped [OF assms(4), of ev B 0 0 "[]" fs] obtain s' dets' where
      "undo_loop ev B (r # rs) 0 0 [] fs = ((0, s', dets'), fs)"
      by blast
    from undo_rename_result [OF assms(1,2,3) Some True this] show ?thesis .
  qed
qed

section \<open>Apply, then undo\<close>

definition single_fs :: filesys where
  "single_fs = [(''d'', Dir 1), (''d/a.txt'', File (Text ''A'') 2)]"

definition override_config :: config where
  \<comment> \<open>prefix \<open>x\<close>, with the backup directory set to \<open>d/bak\<close>\<close>
  "override_config =
     BulkRenameConfig ''d'' (Some ''x'') None False 1 3 False ''%Y%m%d%H%M%S'' None None None
       False (Some ''d/bak'') None"

text \<open>
  Claim C1 says that undo after a successful apply restores every record that was not
  skipped, for every valid configuration. \<open>undo_rename\<close> looks for the backups in the
  most recently modified entry named \<open>backup_*\<close> beside the first original path; a
  configuration that names another backup directory is applied, but its backups are not
  found: one file renamed, none restored.
\<close>

theorem round_trip_counterexample:
  "validate single_fs override_config = None
   \<and> \<not> dry_run override_config
   \<and> \<not> isl (fst (rename_files demo_env override_config single_fs))
   \<and> renamed_count (projr (fst (rename_files demo_env override_config single_fs))) = 1
   \<and> list_all (\<lambda>r. skipped r = None)
        (records (projr (fst (rename_files demo_env override_config single_fs))))
   \<and> is_file (snd (rename_files demo_env override_config single_fs)) ''d/bak/a.txt''
   \<and> fst (undo_rename demo_env ''d'' None
             (snd (rename_files demo_env override_config single_fs)))
       = Inr \<lparr> success = False, restored_count = 0, skipped_count = 0,
               error_message = ''No backup directories found in d'',
               u_log_file = ''d/rename_log_100.json'', u_backup_dir = [], details = [] \<rparr>
   \<and> \<not> exists (snd (undo_rename demo_env ''d'' None
                      (snd (rename_files demo_env override_config single_fs)))) ''d/a.txt''"
  by code_simp

text \<open>
  With the default locations the undo finds nothing when the name of the directory has a
  wildcard character of \<open>glob\<close>: in the directory \<open>d[1]\<close> the pattern for the logs is
  \<open>d[1]/rename_log_*.json\<close>, whose directory part matches a directory \<open>d1\<close> only, and
  there is none.
\<close>

lemma undo_in_wildcard_directory:
  "\<not> isl (fst (rename_files demo_env
             (BulkRenameConfig ''d[1]'' (Some ''x'') None False 1 3 False ''%Y%m%d%H%M%S'' None
                None None False None None)
             [(''d[1]'', Dir 1), (''d[1]/a.txt'', File (Text ''A'') 2)]))
   \<and> is_file (snd (rename_files demo_env
             (BulkRenameConfig ''d[1]'' (Some ''x'') None False 1 3 False ''%Y%m%d%H%M%S'' None
                None None False None None)
             [(''d[1]'', Dir 1), (''d[1]/a.txt'', File (Text ''A'') 2)]))
        ''d[1]/rename_log_100.json''
   \<and> fst (undo_rename demo_env ''d[1]'' None
        (snd (rename_files demo_env
               (BulkRenameConfig ''d[1]'' (Some ''x'') None False 1 3 False ''%Y%m%d%H%M%S'' None
                  None None False None None)
               [(''d[1]'', Dir 1), (''d[1]/a.txt'', File (Text ''A'') 2)])))
       = Inr \<lparr> success = False, restored_count = 0, skipped_count = 0,
               error_message = ''No rename log files found in directory.'',
               u_log_file = [], u_backup_dir = [], details = [] \<rparr>"
  by code_simp

text \<open>
  With the default locations the undo can still lose a file when a new name is the
  original name of another record: \<open>ab\<close> becomes \<open>aab\<close> and \<open>b\<close> becomes \<open>ab\<close>; undoing the
  first record puts \<open>ab\<close> back, undoing the second removes its new path, which is \<open>ab\<close>.
\<close>

lemma undo_loses_chained_file:
  "\<not> isl (fst (rename_files demo_env
             (BulkRenameConfig ''d'' (Some ''a'') None False 1 3 False ''%Y%m%d%H%M%S'' None
                None None False None None)
             [(''d'', Dir 1), (''d/ab'', File (Text ''AB'') 2), (''d/b'', File (Text ''B'') 3)]))
   \<and> restored_count (projr (fst (undo_rename demo_env ''d'' None
        (snd (rename_files demo_env
               (BulkRenameConfig ''d'' (Some ''a'') None False 1 3 False ''%Y%m%d%H%M%S'' None
                  None None False None None)
               [(''d'', Dir 1), (''d/ab'', File (Text ''AB'') 2),
                (''d/b'', File (Text ''B'') 3)]))))) = 2
   \<and> \<not> exists (snd (undo_rename demo_env ''d'' None
        (snd (rename_files demo_env
               (BulkRenameConfig ''d'' (Some ''a'') None False 1 3 False ''%Y%m%d%H%M%S'' None
                  None None False None None)
               [(''d'', Dir 1), (''d/ab'', File (Text ''AB'') 2),
                (''d/b'', File (Text ''B'') 3)])))) ''d/ab''"
  by code_simp

definition file_name :: "string \<Rightarrow> bool" where
  \<comment> \<open>a name that an entry of a directory can have: not empty, no slash, no null byte,
      and neither of the two names \<open>.\<close> and \<open>..\<close>, which every directory holds already\<close>
  "file_name n = (plain_name n \<and> n \<noteq> ''.'' \<and> n \<noteq> ''..'' \<and> no_nul n)"

lemma startswith_append: "startswith (p @ s) p"
  by (simp add: startswith_def)

lemma endswith_Nil: "endswith s []"
  by (simp add: endswith_def)

lemma endswith_append: "endswith (a @ s) s"
  by (simp add: endswith_def)

text \<open>
  Claim C1, amended. Let a run that is not a dry run return, with the backup directory and
  the log file at their default places, in a directory given by a plain path without null
  byte and without any of the wildcard characters \<open>*\<close>, \<open>?\<close> and \<open>[\<close> of \<open>glob\<close>, whose
  entries are all older than the clock of the run and where the backup directory of the run
  does not exist yet; let the new names be file names (not empty, without slash or null
  byte, neither \<open>.\<close> nor \<open>..\<close>), and let no new name of a renamed record be the original
  name of a record. Then \<open>undo_rename\<close> on the directory returns;
  its \<open>restored_count\<close> is the \<open>renamed_count\<close> of the run less the number of records
  marked skipped; and for every record not marked skipped the original path holds again the
  file it held before the run, content and modification time, and the new path holds
  nothing.
\<close>

theorem round_trip_default_locations:
  assumes run: "rename_files ev cfg fs = (Inr res, fs1)"
    and nd: "\<not> dry_run cfg"
    and nb: "\<not> truthy (backup_dir cfg)" and nl: "\<not> truthy (log_file cfg)"
    and wf: "distinct (map fst fs)"
    and pd: "plain_dir (directory cfg)"
    and nm: "\<not> has_magic (directory cfg)" and nz: "no_nul (directory cfg)"
    and tm: "\<forall>p. getmtime fs p < now ev"
    and fresh: "\<not> exists fs (default_backup_dir ev cfg)"
      "\<forall>n. \<not> exists fs (default_backup_dir ev cfg @ ''/'' @ n)"
    and fn: "\<forall>r \<in> set (records res). file_name (the (new_name r))"
    and ch: "\<forall>r \<in> set (records res). \<forall>q \<in> set (records res).
               skipped r = None \<longrightarrow> new_name r \<noteq> original_name q"
  shows "\<exists>u fs2. undo_rename ev' (directory cfg) None fs1 = (Inr u, fs2)
           \<and> restored_count u
               = renamed_count res - length (filter (\<lambda>r. skipped r \<noteq> None) (records res))
           \<and> (\<forall>r \<in> set (records res). skipped r = None \<longrightarrow>
                 (\<exists>c m. lookup fs (the (original_path r)) = Some (File c m))
                 \<and> lookup fs2 (the (original_path r)) = lookup fs (the (original_path r))
                 \<and> \<not> exists fs2 (the (new_path r)))"
proof -
  let ?d = "directory cfg"
  let ?T = "now ev"
  let ?bn = "''backup_'' @ str_nat ?T"
  let ?ln = "''rename_log_'' @ str_nat ?T @ ''.json''"
  let ?B = "?d @ ''/'' @ ?bn"
  let ?lf = "?d @ ''/'' @ ?ln"
  let ?files = "collect_files fs ?d (extensions cfg)"
  let ?rs = "records res"
  have pn: "\<forall>r \<in> set (records res). plain_name (the (new_name r))"
    using fn by (simp add: file_name_def)
  have pbn: "plain_name ?bn"
    by (rule plain_backup_name)
  have pln: "plain_name ?ln"
    by (rule plain_log_name)
  have Bdef: "default_backup_dir ev cfg = ?B"
    using nb path_join_plain [OF pd pbn] by (simp add: default_backup_dir_def)
  have Ldef: "default_log_file ev cfg = ?lf"
    using nl path_join_plain [OF pd pln] by (simp add: default_log_file_def)
  from run obtain g where
    v: "validate fs cfg = None" and
    ne: "?files \<noteq> []" and
    rl: "rename_loop ev cfg (default_backup_dir ev cfg) ?files (numbering_start cfg) [] fs
         = (Inr ?rs, g)" and
    rc: "renamed_count res = length ?rs" and
    wl0: "write_log ev (default_log_file ev cfg) ?rs g = Inr fs1"
    using nd by (auto elim: rename_files_InrE)
  have rl': "rename_loop ev cfg ?B ?files (numbering_start cfg) [] fs = (Inr ?rs, g)"
    using rl Bdef by simp
  have wl: "write_log ev ?lf ?rs g = Inr fs1"
    using wl0 Ldef by simp
  have st: "setting cfg ?d ?B"
    using nd pd pbn by (auto simp: setting_def)
  have dd: "is_dir fs ?d"
    using v by (simp add: validate_def split: if_splits)
  have pos: "0 < ?T"
    using tm [rule_format, of "[]"] by simp
  \<comment> \<open>the collected paths\<close>
  have shape: "x = ?d @ ''/'' @ basename x \<and> basename x \<noteq> [] \<and> is_file fs x"
    if "x \<in> set ?files" for x
  proof -
    from collect_files_shape [OF that] have
      b: "basename x \<noteq> []" and j: "x = path_join ?d (basename x)"
      by simp_all
    have "x = ?d @ ''/'' @ basename x"
      using path_join_plain [OF pd plain_name_basename [OF b]] j by simp
    then show ?thesis
      using b collect_files_are_files [OF wf that] by simp
  qed
  have nbk: "\<not> is_dir fs (?B @ ''/'' @ n)" for n
    using fresh(2) [rule_format, of n] Bdef by (auto simp: is_dir_iff exists_iff)
  have rd: "ready ?d ?B ?files fs"
    unfolding ready_def
    using dd collect_files_distinct [OF wf] shape nbk by blast
  \<comment> \<open>the records\<close>
  have op: "map original_path ?rs = map Some ?files"
    by (rule rename_loop_original_paths [OF rl])
  have shapes: "\<forall>r \<in> set ?rs. \<exists>name'. new_name r = Some name'
           \<and> new_path r = Some (path_join (directory cfg) name')
           \<and> original_path r = Some (the (original_path r))
           \<and> original_name r = Some (basename (the (original_path r)))
           \<and> (skipped r = None \<or> skipped r = Some ''Name unchanged.'')"
    by (rule rename_loop_all [OF _ rl]) (drule process_file_shape, auto)
  have names: "\<exists>q \<in> set ?rs. original_name q = Some (basename x)" if "x \<in> set ?files" for x
  proof -
    have "Some x \<in> set (map original_path ?rs)"
      using that op by simp
    then obtain q where q: "q \<in> set ?rs" "original_path q = Some x"
      by auto
    then have "original_name q = Some (basename x)"
      using shapes by force
    then show ?thesis using q by blast
  qed
  have chain: "\<forall>r \<in> set ?rs. skipped r = None
                  \<longrightarrow> (\<forall>x \<in> set ?files. the (new_name r) \<noteq> basename x)"
  proof (intro ballI impI)
    fix r x
    assume r: "r \<in> set ?rs" "skipped r = None" and x: "x \<in> set ?files"
    from names [OF x] obtain q where q: "q \<in> set ?rs" "original_name q = Some (basename x)"
      by blast
    have "new_name r \<noteq> Some (basename x)"
      using ch r q by metis
    moreover obtain name' where "new_name r = Some name'"
      using shapes r(1) by blast
    ultimately show "the (new_name r) \<noteq> basename x"
      by auto
  qed
  note eff = loop_effect [OF st rl' rd pn chain]
  have tm0: "\<forall>p. p \<noteq> ?d \<and> p \<noteq> ?B \<longrightarrow> getmtime fs p < ?T"
    using tm by simp
  from loop_times [OF st rl' rd pn tm0 pos] have
    tg: "\<forall>p. p \<noteq> ?d \<and> p \<noteq> ?B \<longrightarrow> getmtime g p < ?T" and
    dg: "is_dir g ?d" and
    Bg: "lookup fs ?B = None \<and> (\<exists>r \<in> set ?rs. skipped r = None)
            \<longrightarrow> lookup g ?B = Some (Dir ?T)"
    by blast+
  note dn = new_paths_distinct [OF st rl' rd pn]
  \<comment> \<open>the log\<close>
  define logc where
    "logc = Json (JsonLog (Entries (map Entry ?rs)) (Some (strftime ev ''%Y-%m-%d %H:%M:%S'')))"
  have sl: "CHR ''/'' \<notin> set ?ln" "CHR ''/'' \<notin> set ?bn"
    using pln pbn by (simp_all add: plain_name_def)
  have dnl: "dirname ?lf = ?d"
    by (rule dirname_append [OF pd sl(1)])
  have fs1: "fs1 = put_node ?T ?lf (File logc ?T) g"
    using wl by (simp add: write_log_def write_file_def logc_def split: if_splits)
  have l1: "lookup fs1 p =
      (if p = ?lf then Some (File logc ?T)
       else if p = ?d then Some (Dir (getmtime fs1 ?d))
       else lookup g p)" for p
    unfolding fs1 using dg dnl
    by (auto simp: lookup_put_node is_dir_iff getmtime_def)
  have lfB: "?lf \<noteq> ?B" "?lf \<noteq> ?d"
    by simp_all
  have d1: "is_dir fs1 ?d"
    by (simp add: is_dir_iff l1)
  \<comment> \<open>the records can be undone\<close>
  have rb: "restorable ?d ?B fs fs1 ?rs"
    unfolding restorable_def
  proof (intro conjI ballI impI)
    show "is_dir fs1 ?d" by (rule d1)
    show "distinct (map original_path ?rs)"
      using op collect_files_distinct [OF wf, of ?d "extensions cfg"]
      by (simp add: distinct_map)
    show "distinct (map new_path (filter (\<lambda>r. skipped r = None) ?rs))" by (rule dn)
  next
    fix r
    assume "r \<in> set ?rs"
    then have "skipped r = None \<or> skipped r = Some ''Name unchanged.''"
      using shapes by blast
    then show "skipped r = None \<or> truthy (skipped r)"
      by (auto simp: truthy_def)
  next
    fix r
    assume r: "r \<in> set ?rs" and sk: "skipped r = None"
    let ?n = "the (new_name r)"
    from eff r sk obtain x cm m where
      x: "x \<in> set ?files" and
      f: "original_path r = Some x" "original_name r = Some (basename x)"
         "new_path r = Some (?d @ ''/'' @ ?n)"
         "lookup fs x = Some (File cm m)"
         "lookup g (?B @ ''/'' @ basename x) = Some (File cm m)"
         "lookup g (?d @ ''/'' @ ?n) = Some (File cm m)"
         "lookup g x = None"
      by blast
    have xs: "x = ?d @ ''/'' @ basename x" "basename x \<noteq> []"
      using shape [OF x] by simp_all
    have sn: "CHR ''/'' \<notin> set ?n"
      using pn r by (simp add: plain_name_def)
    have bkl: "?B @ ''/'' @ basename x \<noteq> ?lf" "?B @ ''/'' @ basename x \<noteq> ?d"
    proof -
      show "?B @ ''/'' @ basename x \<noteq> ?lf"
        using child_neq_grandchild [OF sl(1), of ?d ?bn "basename x"] by metis
      show "?B @ ''/'' @ basename x \<noteq> ?d"
        by simp
    qed
    have 1: "lookup fs1 (?B @ ''/'' @ basename x) = Some (File cm m)"
      using bkl f(5) by (simp add: l1 del: append.simps)
    have 2: "is_file fs1 (?d @ ''/'' @ ?n)"
      using f(6) by (auto simp: is_file_iff l1)
    have xd: "x \<noteq> ?d"
      using xs(1) child_neq_dir [of ?d "basename x"] by metis
    have 3: "\<not> is_dir fs1 x"
      using f(7) xd by (auto simp: is_dir_iff l1)
    have 4: "\<forall>q \<in> set ?rs. original_path q \<noteq> Some (?d @ ''/'' @ ?n)"
    proof
      fix q
      assume q: "q \<in> set ?rs"
      have "original_path q \<in> set (map Some ?files)"
        using q op by (metis image_eqI set_map)
      then obtain y where y: "y \<in> set ?files" "original_path q = Some y"
        by auto
      have "?n \<noteq> basename y"
        using chain r sk y(1) by blast
      then have "?d @ ''/'' @ ?n \<noteq> y"
        using shape [OF y(1)] by (metis child_inj)
      then show "original_path q \<noteq> Some (?d @ ''/'' @ ?n)"
        using y(2) by simp
    qed
    show "\<exists>x n cm m.
            original_path r = Some x \<and> original_name r = Some (basename x)
            \<and> x = ?d @ ''/'' @ basename x \<and> basename x \<noteq> []
            \<and> new_path r = Some (?d @ ''/'' @ n) \<and> CHR ''/'' \<notin> set n
            \<and> lookup fs x = Some (File cm m)
            \<and> lookup fs1 (?B @ ''/'' @ basename x) = Some (File cm m)
            \<and> is_file fs1 (?d @ ''/'' @ n) \<and> \<not> is_dir fs1 x
            \<and> (\<forall>q \<in> set ?rs. original_path q \<noteq> Some (?d @ ''/'' @ n))"
      using f(1-4) xs sn 1 2 3 4
      by (intro exI [of _ x] exI [of _ ?n] exI [of _ cm] exI [of _ m]) simp
  qed
  \<comment> \<open>what \<open>undo_rename\<close> finds\<close>
  have mt: "getmtime fs1 q < ?T" if "q \<noteq> ?d" "q \<noteq> ?B" "q \<noteq> ?lf" for q
  proof -
    have "lookup fs1 q = lookup g q"
      using that by (simp add: l1)
    then show ?thesis
      using tg that getmtime_cong [of fs1 q g] by auto
  qed
  have mlf: "getmtime fs1 ?lf = ?T"
    by (simp add: getmtime_def l1)
  have lfm: "?lf \<in> set (glob ev' fs1 ?d ''rename_log_'' ''.json'')"
  proof (rule glob_member [OF _ pd pln])
    show "\<not> has_magic ?d" by (rule nm)
    show "\<not> startswith ?ln ''.''" by (simp add: startswith_def)
    show "CHR ''/'' \<notin> set ''rename_log_''" by simp
    show "CHR ''/'' \<notin> set ''.json''" by simp
    show "lookup fs1 ?lf = Some (File logc ?T)" by (simp add: l1)
    show "?lf = ?d @ ''/'' @ ?ln" by simp
    show "startswith ?ln ''rename_log_''" by (rule startswith_append)
    show "endswith ?ln ''.json''"
      using endswith_append [of "''rename_log_'' @ str_nat ?T" "''.json''"] by simp
    show "length ''rename_log_'' + length ''.json'' \<le> length ?ln" by simp
  qed
  have ns: "CHR ''/'' \<notin> set ''rename_log_''" "CHR ''/'' \<notin> set ''.json''"
    "CHR ''/'' \<notin> set ''backup_''" "CHR ''/'' \<notin> set ([] :: string)"
    by simp_all
  have fl: "find_latest_log ev' fs1 ?d = Some ?lf"
    unfolding find_latest_log_def
  proof (rule newest_unique_max [OF lfm], intro ballI impI)
    fix q
    assume q: "q \<in> set (glob ev' fs1 ?d ''rename_log_'' ''.json'')" "q \<noteq> ?lf"
    from glob_elem_plain [OF q(1) pd nm ns(1,2)] have
      qs: "q = ?d @ ''/'' @ basename q" "q \<noteq> ?d" "startswith (basename q) ''rename_log_''"
      by simp_all
    have "q \<noteq> ?B"
    proof
      assume "q = ?B"
      then have "basename q = ?bn"
        using basename_append [OF sl(2), of ?d] by simp
      then show False using qs(3) by (simp add: startswith_def)
    qed
    then show "getmtime fs1 q < getmtime fs1 ?lf"
      using mt [OF qs(2) _ q(2)] mlf by simp
  qed
  have ld: "load_rename_log fs1 ?lf
      = Inr (Some (JsonLog (Entries (map Entry ?rs))
                     (Some (strftime ev ''%Y-%m-%d %H:%M:%S''))))"
    by (simp add: load_rename_log_def l1 logc_def)
  obtain r0 rs0 where rs0: "?rs = r0 # rs0"
    using ne op by (cases ?rs) auto
  obtain x0 where x0: "x0 \<in> set ?files" "original_path r0 = Some x0"
    using op rs0 by (cases ?files) auto
  have x0s: "x0 = ?d @ ''/'' @ basename x0"
    using shape [OF x0(1)] by simp
  have oe: "or_empty (original_path r0) = x0" "x0 \<noteq> []"
    using x0(2) x0s by (simp_all add: or_empty_def) (metis append_is_Nil_conv list.distinct(1) x0s)
  have dn0: "dirname (or_empty (original_path r0)) = ?d"
    using dirname_append [OF pd basename_no_slash, of x0] x0s oe(1) by simp
  have cnt: "length ?rs - length (filter (\<lambda>r. skipped r \<noteq> None) ?rs)
      = length (filter (\<lambda>r. skipped r = None) ?rs)"
    using sum_length_filter_compl [of "\<lambda>r. skipped r = None" ?rs] by simp
  show ?thesis
  proof (cases "\<exists>r \<in> set ?rs. skipped r = None")
    case False
    have all: "\<forall>q \<in> set (r0 # rs0). truthy (skipped q)"
    proof
      fix q
      assume "q \<in> set (r0 # rs0)"
      then have q: "q \<in> set ?rs"
        using rs0 by simp
      then have "skipped q \<noteq> None"
        using False by auto
      moreover have "skipped q = None \<or> skipped q = Some ''Name unchanged.''"
        using shapes q by blast
      ultimately show "truthy (skipped q)"
        by (auto simp: truthy_def)
    qed
    have z: "length (filter (\<lambda>r. skipped r = None) ?rs) = 0"
      using False by (simp add: filter_empty_conv)
    from undo_rename_all_skipped [OF fl ld [unfolded rs0] _ all] oe
    obtain u where "undo_rename ev' ?d None fs1 = (Inr u, fs1)" "restored_count u = 0"
      by auto
    then show ?thesis
      using False rc cnt z by auto
  next
    case True
    have lB: "lookup fs1 ?B = Some (Dir ?T)"
      using Bg True fresh(1) Bdef lfB by (auto simp: l1 exists_iff)
    have Bm: "?B \<in> set (glob ev' fs1 ?d ''backup_'' [])"
    proof (rule glob_member [OF lB pd pbn])
      show "\<not> has_magic ?d" by (rule nm)
      show "\<not> startswith ?bn ''.''" by (simp add: startswith_def)
      show "CHR ''/'' \<notin> set ''backup_''" by simp
      show "CHR ''/'' \<notin> set ([] :: string)" by simp
      show "?B = ?d @ ''/'' @ ?bn" by simp
      show "startswith ?bn ''backup_''" by (rule startswith_append)
      show "endswith ?bn []" by (rule endswith_Nil)
      show "length ''backup_'' + length [] \<le> length ?bn" by simp
    qed
    have nw: "newest fs1 (glob ev' fs1 (dirname (or_empty (original_path r0))) ''backup_'' [])
        = Some ?B"
      unfolding dn0
    proof (rule newest_unique_max [OF Bm], intro ballI impI)
      fix q
      assume q: "q \<in> set (glob ev' fs1 ?d ''backup_'' [])" "q \<noteq> ?B"
      from glob_elem_plain [OF q(1) pd nm ns(3,4)] have
        qs: "q = ?d @ ''/'' @ basename q" "q \<noteq> ?d" "startswith (basename q) ''backup_''"
        by simp_all
      have "q \<noteq> ?lf"
      proof
        assume "q = ?lf"
        then have "basename q = ?ln"
          using basename_append [OF sl(1), of ?d] by simp
        then show False using qs(3) by (simp add: startswith_def)
      qed
      then show "getmtime fs1 q < getmtime fs1 ?B"
        using mt [OF qs(2) q(2)] lB by (simp add: getmtime_def)
    qed
    have exB: "exists fs1 ?B"
      using lB by (simp add: exists_iff)
    from undo_loop_restores [OF pd pbn refl rb] obtain dets' h' where
      ul: "undo_loop ev' ?B ?rs 0 0 [] fs1
        = ((0 + length (filter (\<lambda>r. skipped r = None) ?rs),
            0 + length (filter (\<lambda>r. skipped r \<noteq> None) ?rs), dets'), h')" and
      rest: "\<forall>r \<in> set ?rs. skipped r = None
          \<longrightarrow> lookup h' (the (original_path r)) = lookup fs (the (original_path r))
              \<and> \<not> exists h' (the (new_path r))"
      by blast
    from undo_rename_result [OF fl ld [unfolded rs0] _ nw exB ul [unfolded rs0]] oe
    obtain u where
      u: "undo_rename ev' ?d None fs1 = (Inr u, h')"
         "restored_count u = 0 + length (filter (\<lambda>r. skipped r = None) (r0 # rs0))"
      by auto
    have files: "\<exists>c m. lookup fs (the (original_path r)) = Some (File c m)"
      if "r \<in> set ?rs" "skipped r = None" for r
      using eff that by force
    show ?thesis
      using u rest files rc cnt rs0
      by (intro exI [of _ u] exI [of _ h']) auto
  qed
qed

theorem round_trip_default_locations_witness:
  "\<not> isl (fst (rename_files demo_env prefix_config demo_fs))
   \<and> (\<exists>u fs2. undo_rename demo_env ''d'' None (snd (rename_files demo_env prefix_config demo_fs))
                  = (Inr u, fs2)
          \<and> restored_count u = 3
          \<and> lookup fs2 ''d/a.txt'' = Some (File (Text ''A'') 3)
          \<and> \<not> exists fs2 ''d/xa.txt'')"
proof -
  let ?res = "projr (fst (rename_files demo_env prefix_config demo_fs))"
  let ?fs1 = "snd (rename_files demo_env prefix_config demo_fs)"
  have ok: "\<not> isl (fst (rename_files demo_env prefix_config demo_fs))"
    by code_simp
  have run: "rename_files demo_env prefix_config demo_fs = (Inr ?res, ?fs1)"
    by code_simp
  have nd: "\<not> dry_run prefix_config"
    by code_simp
  have nb: "\<not> truthy (backup_dir prefix_config)"
    by code_simp
  have nl: "\<not> truthy (log_file prefix_config)"
    by code_simp
  have wf: "distinct (map fst demo_fs)"
    by code_simp
  have pd: "plain_dir (directory prefix_config)"
    by code_simp
  have tm: "\<forall>p. getmtime demo_fs p < now demo_env"
    by (simp add: getmtime_def lookup_def demo_fs_def demo_env_def)
  have B: "default_backup_dir demo_env prefix_config = ''d/backup_100''"
    by code_simp
  have f1: "\<not> exists demo_fs (default_backup_dir demo_env prefix_config)"
    by code_simp
  have f2: "\<forall>n. \<not> exists demo_fs (default_backup_dir demo_env prefix_config @ ''/'' @ n)"
    unfolding B by (simp add: exists_def lookup_def demo_fs_def)
  have nm: "\<not> has_magic (directory prefix_config)"
    by code_simp
  have nz: "no_nul (directory prefix_config)"
    by code_simp
  have "list_all (\<lambda>r. file_name (the (new_name r))) (records ?res)"
    by code_simp
  then have pn: "\<forall>r \<in> set (records ?res). file_name (the (new_name r))"
    by (simp add: list_all_iff)
  have "list_all (\<lambda>r. list_all (\<lambda>q. new_name r \<noteq> original_name q) (records ?res))
          (records ?res)"
    by code_simp
  then have ch: "\<forall>r \<in> set (records ?res). \<forall>q \<in> set (records ?res).
               skipped r = None \<longrightarrow> new_name r \<noteq> original_name q"
    by (simp add: list_all_iff)
  from round_trip_default_locations [OF run nd nb nl wf pd nm nz tm f1 f2 pn ch, of demo_env]
  obtain u fs2 where
    u: "undo_rename demo_env (directory prefix_config) None ?fs1 = (Inr u, fs2)" and
    c: "restored_count u
          = renamed_count ?res - length (filter (\<lambda>r. skipped r \<noteq> None) (records ?res))" and
    r: "\<forall>r \<in> set (records ?res). skipped r = None \<longrightarrow>
                 (\<exists>c m. lookup demo_fs (the (original_path r)) = Some (File c m))
                 \<and> lookup fs2 (the (original_path r)) = lookup demo_fs (the (original_path r))
                 \<and> \<not> exists fs2 (the (new_path r))"
    by blast
  have d: "directory prefix_config = ''d''"
    by code_simp
  have n: "renamed_count ?res - length (filter (\<lambda>r. skipped r \<noteq> None) (records ?res)) = 3"
    by code_simp
  have "list_ex (\<lambda>r. skipped r = None \<and> the (original_path r) = ''d/a.txt''
                     \<and> the (new_path r) = ''d/xa.txt'') (records ?res)"
    by code_simp
  then obtain r0 where
    r0: "r0 \<in> set (records ?res)" "skipped r0 = None" "the (original_path r0) = ''d/a.txt''"
        "the (new_path r0) = ''d/xa.txt''"
    by (auto simp: list_ex_iff)
  have a: "lookup demo_fs ''d/a.txt'' = Some (File (Text ''A'') 3)"
    by code_simp
  have "lookup fs2 ''d/a.txt'' = Some (File (Text ''A'') 3) \<and> \<not> exists fs2 ''d/xa.txt''"
    using r r0 a by force
  then show ?thesis
    using ok u c n d by auto
qed

end
